theory Spec2Isabelle
  imports Complex_Main "HOL-Library.Char_ord" "HOL-Library.List_Lexorder" "HOL-Library.AList"
begin

section \<open>Statistics library (utils/mathUtils.js)\<close>

subsection \<open>Double-precision arithmetic\<close>

text \<open>
  A JavaScript number is an IEEE 754 double. A finite double is represented by the real number
  it denotes, and every arithmetic operation of the source is the exact operation followed by
  rounding to the nearest double, ties to the even significand (\<open>round64\<close>): a double has a
  significand of 53 bits, so a number \<open>x\<close> with \<open>2^e \<le> |x| < 2^(e+1)\<close> is rounded to a
  multiple of \<open>2^(e-52)\<close>, and of \<open>2^-1074\<close> in the subnormal range. Results beyond the
  largest finite double, \<open>NaN\<close> and a division by zero are outside the model; none occurs in
  the computations evaluated below.
\<close>

definition pow2 :: "int \<Rightarrow> real" where
  "pow2 e = (if 0 \<le> e then 2 ^ nat e else 1 / 2 ^ nat (- e))"

definition roundEven :: "real \<Rightarrow> int" where
  "roundEven y =
     (let f = \<lfloor>y\<rfloor>; r = y - of_int f
      in if r < 1 / 2 then f else if 1 / 2 < r then f + 1 else if even f then f else f + 1)"

definition round64 :: "real \<Rightarrow> real" where
  "round64 x =
     (if x = 0 then 0
      else (let e = \<lfloor>log 2 \<bar>x\<bar>\<rfloor>; q = max (e - 52) (- 1074)
            in of_int (roundEven (x / pow2 q)) * pow2 q))"

text \<open>
  The operators \<open>+\<close>, \<open>-\<close>, \<open>*\<close>, \<open>/\<close> and \<open>Math.sqrt\<close> on doubles. \<open>Math.pow(x, 2)\<close>
  is the rounded product \<open>x * x\<close> (\<open>fmul\<close> of \<open>x\<close> with itself); in the computation
  evaluated below every square is a power of two, which no rounding changes.
\<close>

definition fadd :: "real \<Rightarrow> real \<Rightarrow> real" where
  "fadd x y = round64 (x + y)"

definition fsub :: "real \<Rightarrow> real \<Rightarrow> real" where
  "fsub x y = round64 (x - y)"

definition fmul :: "real \<Rightarrow> real \<Rightarrow> real" where
  "fmul x y = round64 (x * y)"

definition fdiv :: "real \<Rightarrow> real \<Rightarrow> real" where
  "fdiv x y = round64 (x / y)"

definition fsqrt :: "real \<Rightarrow> real" where
  "fsqrt x = round64 (sqrt x)"

subsection \<open>The functions of the library\<close>

text \<open>
  Arrays are lists, and the numbers in an argument array are doubles; the length of an array
  is an integer, which is a double as it is.
  \<open>Array.prototype.reduce\<close> with an initial value is \<^const>\<open>foldl\<close>.
\<close>

definition calculateMean :: "real list \<Rightarrow> real" where
  "calculateMean numbers =
     (if length numbers = 0 then 0
      else fdiv (foldl (\<lambda>sum val. fadd sum val) 0 numbers) (real (length numbers)))"

text \<open>\<open>[...numbers].sort((a, b) => a - b)\<close> sorts a copy in ascending numeric order.\<close>

definition calculateMedian :: "real list \<Rightarrow> real" where
  "calculateMedian numbers =
     (if length numbers = 0 then 0
      else (let sorted = sort numbers;
                middleIndex = length sorted div 2
            in if length sorted mod 2 = 0
               then fdiv (fadd (sorted ! (middleIndex - 1)) (sorted ! middleIndex)) 2
               else sorted ! middleIndex))"

definition calculateStandardDeviation :: "real list \<Rightarrow> real" where
  "calculateStandardDeviation numbers =
     (if length numbers \<le> 1 then 0
      else (let mean = calculateMean numbers;
                squaredDifferences = map (\<lambda>num. fmul (fsub num mean) (fsub num mean)) numbers;
                variance = fdiv (foldl (\<lambda>sum val. fadd sum val) 0 squaredDifferences)
                             (fsub (real (length numbers)) 1)
            in fsqrt variance))"

text \<open>
  The \<open>for\<close> loop of \<open>calculateCovariance\<close> runs over the indices \<open>0 .. length - 1\<close> of
  \<open>xValues\<close>; both arrays have that length when the loop is reached.
\<close>

definition calculateCovariance :: "real list \<Rightarrow> real list \<Rightarrow> real" where
  "calculateCovariance xValues yValues =
     (if length xValues \<noteq> length yValues \<or> length xValues \<le> 1 then 0
      else (let xMean = calculateMean xValues;
                yMean = calculateMean yValues;
                sum = foldl (\<lambda>sum i. fadd sum (fmul (fsub (xValues ! i) xMean)
                                                    (fsub (yValues ! i) yMean)))
                        0 [0 ..< length xValues]
            in fdiv sum (fsub (real (length xValues)) 1)))"

definition calculateCorrelation :: "real list \<Rightarrow> real list \<Rightarrow> real" where
  "calculateCorrelation xValues yValues =
     (if length xValues \<noteq> length yValues \<or> length xValues \<le> 1 then 0
      else (let xStdDev = calculateStandardDeviation xValues;
                yStdDev = calculateStandardDeviation yValues
            in if xStdDev = 0 \<or> yStdDev = 0 then 0
               else (let covariance = calculateCovariance xValues yValues
                     in fdiv covariance (fmul xStdDev yStdDev))))"

text \<open>
  \<open>String.prototype.toLowerCase\<close> on the ASCII letters; the aggregation kinds are ASCII
  words, and every other character is left as it is.
\<close>

definition toLowerChar :: "char \<Rightarrow> char" where
  "toLowerChar c =
     (case map_of (zip ''ABCDEFGHIJKLMNOPQRSTUVWXYZ'' ''abcdefghijklmnopqrstuvwxyz'') c of
        Some l \<Rightarrow> l
      | None \<Rightarrow> c)"

definition toLowerCase :: "string \<Rightarrow> string" where
  "toLowerCase s = map toLowerChar s"

text \<open>
  \<open>calculateAggregation\<close> returns \<open>null\<close> (here \<^const>\<open>None\<close>) for an empty array, before it
  looks at the kind. \<open>Math.min(...numbers)\<close> and \<open>Math.max(...numbers)\<close> of a non-empty array
  are its least and greatest element. A caller that omits the kind gets the default
  \<open>'average'\<close>, which is the call with that string.
\<close>

definition calculateAggregation :: "real list \<Rightarrow> string \<Rightarrow> real option" where
  "calculateAggregation numbers type =
     (if length numbers = 0 then None
      else (let t = toLowerCase type in
            if t = ''average'' then Some (calculateMean numbers)
            else if t = ''median'' then Some (calculateMedian numbers)
            else if t = ''min'' then Some (Min (set numbers))
            else if t = ''max'' then Some (Max (set numbers))
            else Some (calculateMean numbers)))"

section \<open>Series aligner (utils/mathUtils.js)\<close>

text \<open>
  A price point. \<open>lastUpdatedAt\<close> is the instant the source obtains with
  \<open>new Date(entry.lastUpdatedAt).getTime()\<close>: integral milliseconds since the epoch (a
  well-formed date; an invalid one is outside the model). Points taken from the input carry no
  \<open>interpolated\<close> field, which is \<^const>\<open>False\<close> here. The aligner copies prices and
  interpolates between two of them; what is proved of it is which points it emits, and the
  interpolated price is computed there in exact arithmetic, without the rounding of the last
  bit.
\<close>

record entry =
  lastUpdatedAt :: int
  price :: real
  interpolated :: bool

record aligned =
  stock1 :: "entry list"
  stock2 :: "entry list"

subsection \<open>Built-ins: number to string, the default sort, Map and Set\<close>

text \<open>
  \<open>Array.prototype.sort\<close> called without a comparison function converts the elements to
  strings and orders them by their UTF-16 code units. For the integral numbers that
  \<open>getTime()\<close> returns, the string is the decimal numeral, with a leading minus sign for a
  negative number. The order on strings is the lexicographic order of
  \<open>HOL-Library.List_Lexorder\<close> over the character codes.
\<close>

definition digitChar :: "nat \<Rightarrow> char" where
  "digitChar d = ''0123456789'' ! d"

fun natDigits :: "nat \<Rightarrow> string" where
  "natDigits n = (if n < 10 then [digitChar n] else natDigits (n div 10) @ [digitChar (n mod 10)])"

declare natDigits.simps [simp del]

definition numberToString :: "int \<Rightarrow> string" where
  "numberToString n = (if n < 0 then CHR ''-'' # natDigits (nat (- n)) else natDigits (nat n))"

definition defaultSort :: "int list \<Rightarrow> int list" where
  "defaultSort xs = sort_key numberToString xs"

text \<open>
  A \<open>Map\<close> keeps its keys in insertion order; \<open>set\<close> on a key that is present replaces the
  value in place. That is \<^const>\<open>AList.update\<close> on an association list.
\<close>

type_synonym priceMap = "(int \<times> entry) list"

definition mapSet :: "int \<Rightarrow> entry \<Rightarrow> priceMap \<Rightarrow> priceMap" where
  "mapSet k v m = AList.update k v m"

definition mapHas :: "priceMap \<Rightarrow> int \<Rightarrow> bool" where
  "mapHas m k = (map_of m k \<noteq> None)"

definition mapGet :: "priceMap \<Rightarrow> int \<Rightarrow> entry option" where
  "mapGet m k = map_of m k"

definition mapKeys :: "priceMap \<Rightarrow> int list" where
  "mapKeys m = map fst m"

text \<open>\<open>[...new Set(xs)]\<close>: the distinct elements of \<open>xs\<close>, each at its first occurrence.\<close>

definition uniqueValues :: "int list \<Rightarrow> int list" where
  "uniqueValues xs = rev (remdups (rev xs))"

text \<open>\<open>Array.prototype.indexOf\<close>: the first index of the element, or -1.\<close>

definition indexOf :: "int list \<Rightarrow> int \<Rightarrow> int" where
  "indexOf xs x = (if x \<in> set xs then int (length (takeWhile (\<lambda>y. y \<noteq> x) xs)) else - 1)"

subsection \<open>findNearest\<close>

text \<open>
  The two loops of \<open>findNearest\<close>, from a start index downwards to 0 and upwards to the end
  of the array. \<open>null\<close> is \<^const>\<open>None\<close>. Every index read lies inside the array: the
  downward loop starts below an index of the array (or at -2), the upward loop at a
  non-negative index.
\<close>

function findBefore :: "int list \<Rightarrow> priceMap \<Rightarrow> int \<Rightarrow> int option" where
  "findBefore timestamps dataMap i =
     (if i \<ge> 0
      then (if mapHas dataMap (timestamps ! nat i) then Some (timestamps ! nat i)
            else findBefore timestamps dataMap (i - 1))
      else None)"
  by pat_completeness auto
termination
  by (relation "measure (\<lambda>(timestamps, dataMap, i). nat (i + 1))") auto

declare findBefore.simps [simp del]

function findAfter :: "int list \<Rightarrow> priceMap \<Rightarrow> int \<Rightarrow> int option" where
  "findAfter timestamps dataMap i =
     (if i < int (length timestamps)
      then (if mapHas dataMap (timestamps ! nat i) then Some (timestamps ! nat i)
            else findAfter timestamps dataMap (i + 1))
      else None)"
  by pat_completeness auto
termination
  by (relation "measure (\<lambda>(timestamps, dataMap, i). nat (int (length timestamps) - i))") auto

declare findAfter.simps [simp del]

definition findNearest :: "int list \<Rightarrow> int \<Rightarrow> priceMap \<Rightarrow> string \<Rightarrow> int option" where
  "findNearest timestamps target dataMap direction =
     (if direction = ''before''
      then findBefore timestamps dataMap (indexOf timestamps target - 1)
      else findAfter timestamps dataMap (indexOf timestamps target + 1))"

subsection \<open>interpolateMissingData\<close>

text \<open>
  The source tests the result of \<open>findNearest\<close> for truthiness (\<open>before && after\<close>,
  \<open>else if (before)\<close>, \<open>else if (after)\<close>): \<open>null\<close> is falsy, and so is the number 0.
\<close>

definition truthy :: "int option \<Rightarrow> bool" where
  "truthy r = (case r of None \<Rightarrow> False | Some t \<Rightarrow> t \<noteq> 0)"

text \<open>
  One series at one timestamp (the source has this block twice, once for each series): push
  the exact point when the series has one, else resolve it from the nearest points. A
  truthy result of \<open>findNearest\<close> is a key of the map (lemmas \<open>findBefore_has\<close> and
  \<open>findAfter_has\<close> below), so \<open>dataMap.get\<close> is only read at keys that are present;
  \<^const>\<open>the\<close> is applied to nothing else.
\<close>

definition resolveAt :: "int list \<Rightarrow> int \<Rightarrow> priceMap \<Rightarrow> entry list \<Rightarrow> entry list" where
  "resolveAt allTimestamps currentTime dataMap result =
     (if mapHas dataMap currentTime then result @ [the (mapGet dataMap currentTime)]
      else (let before = findNearest allTimestamps currentTime dataMap ''before'';
                after = findNearest allTimestamps currentTime dataMap ''after''
            in if truthy before \<and> truthy after
               then (let beforePrice = price (the (mapGet dataMap (the before)));
                         afterPrice = price (the (mapGet dataMap (the after)));
                         ratio = real_of_int (currentTime - the before)
                                   / real_of_int (the after - the before);
                         interpolatedPrice = beforePrice + (afterPrice - beforePrice) * ratio
                     in result @ [\<lparr>lastUpdatedAt = currentTime, price = interpolatedPrice,
                                    interpolated = True\<rparr>])
               else if truthy before then result @ [the (mapGet dataMap (the before))]
               else if truthy after then result @ [the (mapGet dataMap (the after))]
               else result))"

text \<open>The \<open>for\<close> loop over the indices of \<open>allTimestamps\<close>, with the two result arrays as state.\<close>

definition interpolateMissingData ::
  "entry list \<Rightarrow> entry list \<Rightarrow> int list \<Rightarrow> priceMap \<Rightarrow> priceMap \<Rightarrow> aligned" where
  "interpolateMissingData stockData1 stockData2 allTimestamps stock1Map stock2Map =
     (let (result1, result2) =
            foldl (\<lambda>(result1, result2) i.
                     (let currentTime = allTimestamps ! i
                      in (resolveAt allTimestamps currentTime stock1Map result1,
                          resolveAt allTimestamps currentTime stock2Map result2)))
              ([], []) [0 ..< length allTimestamps]
      in \<lparr>stock1 = result1, stock2 = result2\<rparr>)"

subsection \<open>timeAlignPriceData\<close>

definition buildMap :: "entry list \<Rightarrow> priceMap" where
  "buildMap stockData = foldl (\<lambda>m entry. mapSet (lastUpdatedAt entry) entry m) [] stockData"

definition unionTimestamps :: "priceMap \<Rightarrow> priceMap \<Rightarrow> int list" where
  "unionTimestamps stock1Map stock2Map =
     defaultSort (uniqueValues (mapKeys stock1Map @ mapKeys stock2Map))"

definition intersectionPass :: "int list \<Rightarrow> priceMap \<Rightarrow> priceMap \<Rightarrow> entry list \<times> entry list" where
  "intersectionPass allTimestamps stock1Map stock2Map =
     foldl (\<lambda>(aligned1, aligned2) timestamp.
              if mapHas stock1Map timestamp \<and> mapHas stock2Map timestamp
              then (aligned1 @ [the (mapGet stock1Map timestamp)],
                    aligned2 @ [the (mapGet stock2Map timestamp)])
              else (aligned1, aligned2))
       ([], []) allTimestamps"

definition timeAlignPriceData :: "entry list \<Rightarrow> entry list \<Rightarrow> aligned" where
  "timeAlignPriceData stockData1 stockData2 =
     (let stock1Map = buildMap stockData1;
          stock2Map = buildMap stockData2;
          allTimestamps = unionTimestamps stock1Map stock2Map
      in if length allTimestamps \<le> 1
         then \<lparr>stock1 = stockData1, stock2 = stockData2\<rparr>
         else (let (aligned1, aligned2) = intersectionPass allTimestamps stock1Map stock2Map
               in if length aligned1 < 2
                  then interpolateMissingData stockData1 stockData2 allTimestamps
                         stock1Map stock2Map
                  else \<lparr>stock1 = aligned1, stock2 = aligned2\<rparr>))"

section \<open>Tiered cache (services/cacheService.js)\<close>

subsection \<open>Objects, references and parameters\<close>

text \<open>
  Arrays and objects are reached through references, and the claims about the cache depend on
  who shares them. The store maps a reference to the object it denotes: an array of strings
  (the \<open>tickers\<close> of a correlation request) or any other object, with contents of type
  \<open>'a\<close> (a result that is cached). A value handed to or returned by the cache is a
  reference.
\<close>

type_synonym addr = nat

datatype 'a hobj = StrArray "string list" | Obj 'a

type_synonym 'a heap = "addr \<rightharpoonup> 'a hobj"

datatype error = TypeError

text \<open>
  The parameter object of a cache request. A property that the caller did not set is
  \<open>undefined\<close>, here \<^const>\<open>None\<close>. \<open>minutes\<close> is the integer that the validators obtain
  with \<open>parseInt\<close>.
\<close>

record params =
  ticker :: "string option"
  tickers :: "addr option"
  minutes :: "int option"
  aggregation :: "string option"

text \<open>A value inside a template literal: \<open>undefined\<close> prints as the word, a number as its numeral.\<close>

definition templateString :: "string option \<Rightarrow> string" where
  "templateString v = (case v of None \<Rightarrow> ''undefined'' | Some s \<Rightarrow> s)"

definition templateNumber :: "int option \<Rightarrow> string" where
  "templateNumber v = (case v of None \<Rightarrow> ''undefined'' | Some n \<Rightarrow> numberToString n)"

text \<open>\<open>Array.prototype.join\<close>.\<close>

fun join :: "string \<Rightarrow> string list \<Rightarrow> string" where
  "join sep [] = []"
| "join sep [x] = x"
| "join sep (x # y # ys) = x @ sep @ join sep (y # ys)"

subsection \<open>createCacheKey\<close>

text \<open>
  \<open>params.tickers.sort()\<close> sorts the array that \<open>params.tickers\<close> refers to in place, by
  the default order on strings (lexicographic on the character codes, the order that
  \<^const>\<open>sort\<close> uses on \<^typ>\<open>string\<close> here), and returns it: the function returns the key together with
  the store, in which that array is now sorted. It raises a \<open>TypeError\<close> when
  \<open>params.tickers\<close> is \<open>undefined\<close> or has no \<open>sort\<close> method. \<open>JSON.stringify\<close>, used for
  every other kind of request, is the parameter \<open>stringify\<close>.
\<close>

definition createCacheKey ::
  "(params \<Rightarrow> 'a heap \<Rightarrow> string) \<Rightarrow> string \<Rightarrow> params \<Rightarrow> 'a heap \<Rightarrow> error + (string \<times> 'a heap)" where
  "createCacheKey stringify type params h =
     (if type = ''stockPrice''
      then Inr (''stock:'' @ templateString (ticker params) @ '':''
                  @ templateNumber (minutes params) @ '':''
                  @ templateString (aggregation params), h)
      else if type = ''stockHistory''
      then Inr (''history:'' @ templateString (ticker params) @ '':''
                  @ templateNumber (minutes params), h)
      else if type = ''correlation''
      then (case tickers params of
              None \<Rightarrow> Inl TypeError
            | Some a \<Rightarrow>
                (case h a of
                   Some (StrArray ts) \<Rightarrow>
                     (let sorted = sort ts
                      in Inr (''corr:'' @ join ''_'' sorted @ '':''
                                @ templateNumber (minutes params),
                              h(a \<mapsto> StrArray sorted)))
                 | _ \<Rightarrow> Inl TypeError))
      else Inr (type @ '':'' @ stringify params h, h))"

subsection \<open>The three stores\<close>

text \<open>
  Modelled from the spec: the store behind each tier is an instance of the library class
  \<open>NodeCache\<close>, which is not among the sources. The source creates the three instances with
  \<open>useClones: false\<close> and the comment "Store references for better performance"; the
  specification describes an entry as a key, a value and an expiry instant, a \<open>get\<close> that
  returns the value when it is present and unexpired and signals a miss otherwise, and a
  \<open>put\<close> whose time-to-live is the override when one is given and the tier's default
  otherwise. An entry therefore holds the reference it was given, not a copy of the object.
  Time and time-to-live are in seconds.
\<close>

record centry =
  cvalue :: addr
  expiry :: real

record nodeCache =
  stdTTL :: real
  entries :: "string \<rightharpoonup> centry"

definition cacheGet :: "nodeCache \<Rightarrow> real \<Rightarrow> string \<Rightarrow> addr option \<times> nodeCache" where
  "cacheGet c now key =
     (case entries c key of
        None \<Rightarrow> (None, c)
      | Some e \<Rightarrow>
          if expiry e < now then (None, c\<lparr>entries := (entries c)(key := None)\<rparr>)
          else (Some (cvalue e), c))"

definition cacheSet :: "nodeCache \<Rightarrow> real \<Rightarrow> string \<Rightarrow> addr \<Rightarrow> real option \<Rightarrow> nodeCache" where
  "cacheSet c now key v ttl =
     (let life = (case ttl of None \<Rightarrow> stdTTL c | Some t \<Rightarrow> t)
      in c\<lparr>entries := (entries c)(key \<mapsto> \<lparr>cvalue = v, expiry = now + life\<rparr>)\<rparr>)"

record caches =
  shortTermCache :: nodeCache
  mediumTermCache :: nodeCache
  longTermCache :: nodeCache

definition initialCaches :: caches where
  "initialCaches =
     \<lparr>shortTermCache = \<lparr>stdTTL = 10, entries = Map.empty\<rparr>,
      mediumTermCache = \<lparr>stdTTL = 60, entries = Map.empty\<rparr>,
      longTermCache = \<lparr>stdTTL = 300, entries = Map.empty\<rparr>\<rparr>"

subsection \<open>getCacheForType, getCachedData, setCachedData\<close>

text \<open>
  \<open>getCacheForType\<close> returns one of the three stores; here it returns which one.
  A comparison with \<open>undefined\<close> is false. (The arguments \<open>minutes\<close> and \<open>tickers\<close> of
  the source are written with a prime, since the plain names are the fields of the
  parameter object.)
\<close>

datatype tier = ShortTerm | MediumTerm | LongTerm

definition lessEq :: "int option \<Rightarrow> int \<Rightarrow> bool" where
  "lessEq v n = (case v of None \<Rightarrow> False | Some m \<Rightarrow> m \<le> n)"

definition getCacheForType :: "string \<Rightarrow> int option \<Rightarrow> tier" where
  "getCacheForType type minutes' =
     (if lessEq minutes' 5 then ShortTerm
      else if lessEq minutes' 30 then MediumTerm
      else LongTerm)"

fun tierCache :: "tier \<Rightarrow> caches \<Rightarrow> nodeCache" where
  "tierCache ShortTerm cs = shortTermCache cs"
| "tierCache MediumTerm cs = mediumTermCache cs"
| "tierCache LongTerm cs = longTermCache cs"

fun tierUpdate :: "tier \<Rightarrow> nodeCache \<Rightarrow> caches \<Rightarrow> caches" where
  "tierUpdate ShortTerm c cs = cs\<lparr>shortTermCache := c\<rparr>"
| "tierUpdate MediumTerm c cs = cs\<lparr>mediumTermCache := c\<rparr>"
| "tierUpdate LongTerm c cs = cs\<lparr>longTermCache := c\<rparr>"

text \<open>
  Both functions build the key first (\<open>createCacheKey\<close>, which may change the store of
  objects or raise), then choose the tier from \<open>params.minutes\<close>, then read or write that
  tier at the current time \<open>now\<close>. \<open>getCachedData\<close> returns the reference found, or
  \<open>undefined\<close> (\<^const>\<open>None\<close>).
\<close>

definition getCachedData ::
  "(params \<Rightarrow> 'a heap \<Rightarrow> string) \<Rightarrow> string \<Rightarrow> params \<Rightarrow> caches \<Rightarrow> 'a heap \<Rightarrow> real
   \<Rightarrow> error + (addr option \<times> caches \<times> 'a heap)" where
  "getCachedData stringify type params cs h now =
     (case createCacheKey stringify type params h of
        Inl e \<Rightarrow> Inl e
      | Inr (key, h') \<Rightarrow>
          (let cache = getCacheForType type (minutes params);
               (r, c') = cacheGet (tierCache cache cs) now key
           in Inr (r, tierUpdate cache c' cs, h')))"

definition setCachedData ::
  "(params \<Rightarrow> 'a heap \<Rightarrow> string) \<Rightarrow> string \<Rightarrow> params \<Rightarrow> addr \<Rightarrow> real option \<Rightarrow> caches
   \<Rightarrow> 'a heap \<Rightarrow> real \<Rightarrow> error + (caches \<times> 'a heap)" where
  "setCachedData stringify type params data ttl cs h now =
     (case createCacheKey stringify type params h of
        Inl e \<Rightarrow> Inl e
      | Inr (key, h') \<Rightarrow>
          (let cache = getCacheForType type (minutes params)
           in Inr (tierUpdate cache (cacheSet (tierCache cache cs) now key data ttl) cs, h')))"

text \<open>The object that a caller sees through the reference a get returned.\<close>

definition deref :: "'a heap \<Rightarrow> addr option \<Rightarrow> 'a hobj option" where
  "deref h r = (case r of None \<Rightarrow> None | Some a \<Rightarrow> h a)"

subsection \<open>The cache lookup of getStockCorrelation\<close>

text \<open>
  The beginning of \<open>getStockCorrelation\<close> (controllers/correlationController.js), up to the
  two fetches: \<open>cacheParams = { tickers, minutes }\<close> holds the reference of the request's
  own \<open>tickers\<close> array; after the cache lookup the controller reads \<open>tickers[0]\<close> and
  \<open>tickers[1]\<close> from that array, rejects equal tickers, and fetches the history of
  \<open>tickers[0]\<close> and of \<open>tickers[1]\<close>, in this order. An index outside the array reads
  \<open>undefined\<close> (\<^const>\<open>None\<close>).
\<close>

definition arrayAt :: "'a heap \<Rightarrow> addr \<Rightarrow> nat \<Rightarrow> string option" where
  "arrayAt h a i =
     (case h a of Some (StrArray ts) \<Rightarrow> (if i < length ts then Some (ts ! i) else None)
      | _ \<Rightarrow> None)"

datatype lookup = CachedResult addr | SameStock | Fetch "string option" "string option"

definition getStockCorrelation_lookup ::
  "(params \<Rightarrow> 'a heap \<Rightarrow> string) \<Rightarrow> addr \<Rightarrow> int \<Rightarrow> caches \<Rightarrow> 'a heap \<Rightarrow> real
   \<Rightarrow> error + (lookup \<times> caches \<times> 'a heap)" where
  "getStockCorrelation_lookup stringify tickers' minutes' cs h now =
     (let cacheParams = \<lparr>ticker = None, tickers = Some tickers', minutes = Some minutes',
                          aggregation = None\<rparr>
      in case getCachedData stringify ''correlation'' cacheParams cs h now of
           Inl e \<Rightarrow> Inl e
         | Inr (cachedResult, cs', h') \<Rightarrow>
             (case cachedResult of
                Some r \<Rightarrow> Inr (CachedResult r, cs', h')
              | None \<Rightarrow>
                  if arrayAt h' tickers' 0 = arrayAt h' tickers' 1 then Inr (SameStock, cs', h')
                  else Inr (Fetch (arrayAt h' tickers' 0) (arrayAt h' tickers' 1), cs', h')))"

subsection \<open>The interpolation rule as the specification words it\<close>

text \<open>
  The nearest earlier and the nearest later timestamp with real data are the greatest key
  below and the least key above the timestamp. A series has, at a timestamp, its exact point;
  else the point interpolated between the two bounds, marked; else the one bound's point as
  it is; else no point.
\<close>

definition nearestEarlier :: "priceMap \<Rightarrow> int \<Rightarrow> int option" where
  "nearestEarlier m t =
     (let ks = filter (\<lambda>k. k < t) (mapKeys m) in if ks = [] then None else Some (Max (set ks)))"

definition nearestLater :: "priceMap \<Rightarrow> int \<Rightarrow> int option" where
  "nearestLater m t =
     (let ks = filter (\<lambda>k. t < k) (mapKeys m) in if ks = [] then None else Some (Min (set ks)))"

definition spec_point :: "priceMap \<Rightarrow> int \<Rightarrow> entry option" where
  "spec_point m t =
     (case mapGet m t of
        Some e \<Rightarrow> Some e
      | None \<Rightarrow>
          (case (nearestEarlier m t, nearestLater m t) of
             (Some t_before, Some t_after) \<Rightarrow>
               (case (mapGet m t_before, mapGet m t_after) of
                  (Some e_before, Some e_after) \<Rightarrow>
                    Some \<lparr>lastUpdatedAt = t,
                          price = price e_before
                                    + (price e_after - price e_before) * real_of_int (t - t_before)
                                        / real_of_int (t_after - t_before),
                          interpolated = True\<rparr>
                | _ \<Rightarrow> None)
           | (Some t_before, None) \<Rightarrow> mapGet m t_before
           | (None, Some t_after) \<Rightarrow> mapGet m t_after
           | (None, None) \<Rightarrow> None))"

definition spec_series :: "priceMap \<Rightarrow> int list \<Rightarrow> entry list" where
  "spec_series m ts = List.map_filter (spec_point m) ts"

subsection \<open>The statistics as the specification words them\<close>

text \<open>
  The arithmetic mean and the sample (N - 1) standard deviation of a sequence, in exact
  arithmetic.
\<close>

definition spec_mean :: "real list \<Rightarrow> real" where
  "spec_mean xs = (if xs = [] then 0 else sum_list xs / real (length xs))"

definition spec_stddev :: "real list \<Rightarrow> real" where
  "spec_stddev xs =
     sqrt ((\<Sum>x\<leftarrow>xs. (x - spec_mean xs) ^ 2) / (real (length xs) - 1))"

section \<open>Properties of the statistics library\<close>

subsection \<open>Rounding at a known exponent\<close>

lemma pow2_powr: "pow2 e = 2 powr (of_int e)"
  by (simp add: pow2_def powr_real_of_int inverse_eq_divide)

lemma pow2_pos: "0 < pow2 e"
  by (simp add: pow2_powr)

lemma round64_at:
  assumes "pow2 e \<le> \<bar>x\<bar>" and "\<bar>x\<bar> < pow2 (e + 1)"
  shows "round64 x = of_int (roundEven (x / pow2 (max (e - 52) (- 1074)))) * pow2 (max (e - 52) (- 1074))"
proof -
  have pos: "0 < \<bar>x\<bar>" using assms(1) pow2_pos [of e] by linarith
  then have nz: "x \<noteq> 0" by auto
  have "\<lfloor>log 2 \<bar>x\<bar>\<rfloor> = e"
    using assms pos by (simp add: floor_log_eq_powr_iff pow2_powr)
  then show ?thesis using nz by (simp add: round64_def Let_def)
qed

lemma roundEven_sqrt_down:
  assumes "0 \<le> k" and "(of_int k)\<^sup>2 \<le> y" and "y < (of_int k + 1 / 2)\<^sup>2"
  shows "roundEven (sqrt y) = k"
proof -
  have lo: "of_int k \<le> sqrt y" using assms(2) by (rule real_le_rsqrt)
  have hi: "sqrt y < of_int k + 1 / 2"
    using assms(1,3) by (intro real_less_lsqrt) simp_all
  have "\<lfloor>sqrt y\<rfloor> = k" using lo hi by (intro floor_unique) simp_all
  then show ?thesis using hi by (simp add: roundEven_def Let_def)
qed

lemma pow2_add: "pow2 (a + b) = pow2 a * pow2 b"
  by (simp add: pow2_powr powr_add)

lemma pow2_nat: "0 \<le> a \<Longrightarrow> pow2 a = of_int (2 ^ nat a)"
  by (simp add: pow2_def)

lemma pow2_less_iff: "pow2 a < pow2 b \<longleftrightarrow> a < b"
  by (simp add: pow2_powr)

text \<open>
  A number \<open>m * 2^q\<close> with \<open>|m| < 2^53\<close> and \<open>q \<ge> - 1074\<close> has a significand of at most
  53 bits: rounding leaves it as it is.
\<close>

lemma roundEven_int: "roundEven (of_int k) = k"
  by (simp add: roundEven_def)

lemma round64_representable:
  assumes m: "\<bar>m\<bar> < 2 ^ 53" and q: "- 1074 \<le> q"
  shows "round64 (of_int m * pow2 q) = of_int m * pow2 q"
proof (cases "m = 0")
  case True
  then show ?thesis by (simp add: round64_def)
next
  case False
  let ?x = "of_int m * pow2 q :: real"
  define e where "e = \<lfloor>log 2 \<bar>?x\<bar>\<rfloor>"
  define Q where "Q = max (e - 52) (- 1074)"
  have xpos: "0 < \<bar>?x\<bar>" using False pow2_pos [of q] by simp
  have "pow2 e \<le> \<bar>?x\<bar>"
    using xpos floor_log_eq_powr_iff [of "\<bar>?x\<bar>" 2 e] by (simp add: e_def pow2_powr)
  moreover have "\<bar>?x\<bar> < pow2 (q + 53)"
  proof -
    have "\<bar>real_of_int m\<bar> < 2 ^ 53" using m by (metis of_int_abs of_int_less_numeral_power_cancel_iff)
    then have "\<bar>real_of_int m\<bar> * pow2 q < 2 ^ 53 * pow2 q"
      using pow2_pos [of q] by simp
    moreover have "pow2 53 = 2 ^ 53" by (simp add: pow2_def)
    then have "pow2 (q + 53) = pow2 q * 2 ^ 53" by (simp only: pow2_add)
    ultimately show ?thesis using pow2_pos [of q] by (simp add: abs_mult mult.commute)
  qed
  ultimately have "pow2 e < pow2 (q + 53)" by linarith
  then have "e < q + 53" by (simp add: pow2_less_iff)
  then have Qq: "Q \<le> q" using q by (simp add: Q_def)
  have split: "pow2 q = of_int (2 ^ nat (q - Q)) * pow2 Q"
    using pow2_add [of "q - Q" Q] pow2_nat [of "q - Q"] Qq by simp
  have "?x / pow2 Q = of_int (m * 2 ^ nat (q - Q))"
    using pow2_pos [of Q] by (simp add: split)
  then have "roundEven (?x / pow2 Q) = m * 2 ^ nat (q - Q)"
    by (simp only: roundEven_int)
  then have "of_int (roundEven (?x / pow2 Q)) * pow2 Q = ?x"
    by (simp add: split)
  moreover have "?x \<noteq> 0" using xpos by simp
  ultimately show ?thesis
    by (simp add: round64_def Let_def e_def [symmetric] Q_def [symmetric])
qed

text \<open>The roundings in the statistics of the sequence 0.1, 0.1, 0.1.\<close>

lemma round64_tenth: "round64 (1 / 10) = 3602879701896397 / 36028797018963968"
  by (subst round64_at [where e = "- 4"]) (simp_all add: pow2_def roundEven_def)

lemma tenth_sum1: "fadd 0 (3602879701896397 / 36028797018963968) = 3602879701896397 / 36028797018963968"
  unfolding fadd_def by (subst round64_at [where e = "- 4"]) (simp_all add: pow2_def roundEven_def)

lemma tenth_sum2: "fadd (3602879701896397 / 36028797018963968) (3602879701896397 / 36028797018963968)
           = 3602879701896397 / 18014398509481984"
  unfolding fadd_def by (subst round64_at [where e = "- 3"]) (simp_all add: pow2_def roundEven_def)

lemma tenth_sum3: "fadd (3602879701896397 / 18014398509481984) (3602879701896397 / 36028797018963968)
           = 1351079888211149 / 4503599627370496"
  unfolding fadd_def by (subst round64_at [where e = "- 2"]) (simp_all add: pow2_def roundEven_def)

lemma tenth_mean: "fdiv (1351079888211149 / 4503599627370496) 3 = 7205759403792795 / 72057594037927936"
  unfolding fdiv_def by (subst round64_at [where e = "- 4"]) (simp_all add: pow2_def roundEven_def)

lemma mean_tenths:
  "calculateMean [3602879701896397 / 36028797018963968, 3602879701896397 / 36028797018963968,
                  3602879701896397 / 36028797018963968]
   = 7205759403792795 / 72057594037927936"
  by (simp add: calculateMean_def tenth_sum1 tenth_sum2 tenth_sum3 tenth_mean)


lemma tenth_deviation: "fsub (3602879701896397 / 36028797018963968) (7205759403792795 / 72057594037927936)
           = - (1 / 72057594037927936)"
  unfolding fsub_def by (subst round64_at [where e = "- 56"]) (simp_all add: pow2_def roundEven_def)

lemma tenth_square: "fmul (- (1 / 72057594037927936)) (- (1 / 72057594037927936))
           = 1 / 5192296858534827628530496329220096"
  unfolding fmul_def by (subst round64_at [where e = "- 112"]) (simp_all add: pow2_def roundEven_def)

lemma square_sum1: "fadd 0 (1 / 5192296858534827628530496329220096) = 1 / 5192296858534827628530496329220096"
  unfolding fadd_def by (subst round64_at [where e = "- 112"]) (simp_all add: pow2_def roundEven_def)

lemma square_sum2: "fadd (1 / 5192296858534827628530496329220096) (1 / 5192296858534827628530496329220096)
           = 1 / 2596148429267413814265248164610048"
  unfolding fadd_def by (subst round64_at [where e = "- 111"]) (simp_all add: pow2_def roundEven_def)

lemma square_sum3: "fadd (1 / 2596148429267413814265248164610048) (1 / 5192296858534827628530496329220096)
           = 3 / 5192296858534827628530496329220096"
  unfolding fadd_def by (subst round64_at [where e = "- 111"]) (simp_all add: pow2_def roundEven_def)

lemma length_minus_one: "fsub 3 1 = 2"
  unfolding fsub_def by (subst round64_at [where e = 1]) (simp_all add: pow2_def roundEven_def)

lemma tenth_variance: "fdiv (3 / 5192296858534827628530496329220096) 2 = 3 / 10384593717069655257060992658440192"
  unfolding fdiv_def by (subst round64_at [where e = "- 112"]) (simp_all add: pow2_def roundEven_def)

lemma sqrt_scaled:
  "sqrt (3 / 10384593717069655257060992658440192) / pow2 (- 108)
   = sqrt 30423614405477505635920876929024"
proof -
  have "sqrt 30423614405477505635920876929024
        = sqrt (3 / 10384593717069655257060992658440192 * (2 ^ 108)\<^sup>2)"
    by simp
  also have "\<dots> = sqrt (3 / 10384593717069655257060992658440192) * 2 ^ 108"
    by (simp only: real_sqrt_mult real_sqrt_abs) simp
  finally show ?thesis by (simp add: pow2_def)
qed

lemma tenth_sqrt: "fsqrt (3 / 10384593717069655257060992658440192)
           = 2757880273211543 / 162259276829213363391578010288128"
proof -
  let ?v = "3 / 10384593717069655257060992658440192 :: real"
  have p1: "pow2 (- 56) = 1 / 72057594037927936" and p2: "pow2 (- 56 + 1) = 1 / 36028797018963968"
    by (simp_all add: pow2_def)
  have nonneg: "0 \<le> sqrt ?v" by simp
  have l: "1 / 72057594037927936 \<le> sqrt ?v"
    by (rule real_le_rsqrt) (simp add: power2_eq_square)
  have h: "sqrt ?v < 1 / 36028797018963968"
    by (rule real_less_lsqrt) (simp_all add: power2_eq_square)
  have lo: "pow2 (- 56) \<le> \<bar>sqrt ?v\<bar>"
    unfolding p1 abs_of_nonneg [OF nonneg] by (rule l)
  have hi: "\<bar>sqrt ?v\<bar> < pow2 (- 56 + 1)"
    unfolding p2 abs_of_nonneg [OF nonneg] by (rule h)
  have "roundEven (sqrt 30423614405477505635920876929024) = 5515760546423086"
    by (rule roundEven_sqrt_down) (simp_all add: power2_eq_square)
  then show ?thesis
    unfolding fsqrt_def round64_at [OF lo hi]
    by (simp add: sqrt_scaled) (simp add: pow2_def)
qed

lemma sd_tenths:
  "calculateStandardDeviation
     [3602879701896397 / 36028797018963968, 3602879701896397 / 36028797018963968,
      3602879701896397 / 36028797018963968]
   = 2757880273211543 / 162259276829213363391578010288128"
  by (simp add: calculateStandardDeviation_def mean_tenths tenth_deviation tenth_square square_sum1 square_sum2 square_sum3 length_minus_one tenth_variance tenth_sqrt)

lemma cov_tenths:
  "calculateCovariance
     [3602879701896397 / 36028797018963968, 3602879701896397 / 36028797018963968,
      3602879701896397 / 36028797018963968]
     [3602879701896397 / 36028797018963968, 3602879701896397 / 36028797018963968,
      3602879701896397 / 36028797018963968]
   = 3 / 10384593717069655257060992658440192"
  by (simp add: calculateCovariance_def mean_tenths tenth_deviation tenth_square square_sum1 square_sum2 square_sum3 length_minus_one tenth_variance upt_rec [of _ 3]
      upt_rec [of _ "Suc _"])

lemma tenth_product: "fmul (2757880273211543 / 162259276829213363391578010288128)
                (2757880273211543 / 162259276829213363391578010288128)
           = 6755399441055743 / 23384026197294446691258957323460528314494920687616"
  unfolding fmul_def by (subst round64_at [where e = "- 112"]) (simp_all add: pow2_def roundEven_def)

lemma tenth_quotient: "fdiv (3 / 10384593717069655257060992658440192)
                (6755399441055743 / 23384026197294446691258957323460528314494920687616)
           = 4503599627370497 / 4503599627370496"
  unfolding fdiv_def by (subst round64_at [where e = 0]) (simp_all add: pow2_def roundEven_def)

subsection \<open>The branches of calculateCorrelation\<close>

text \<open>
  The function returns 0 when the lengths differ, when there is at most one point, and when
  one of the two standard deviations it computed is 0; otherwise it returns the quotient of
  the covariance and the product of the standard deviations, as it computed them.
\<close>

lemma calculateCorrelation_branches:
  "calculateCorrelation xs ys =
     (if length xs \<noteq> length ys \<or> length xs \<le> 1
         \<or> calculateStandardDeviation xs = 0 \<or> calculateStandardDeviation ys = 0
      then 0
      else fdiv (calculateCovariance xs ys)
             (fmul (calculateStandardDeviation xs) (calculateStandardDeviation ys)))"
  by (simp add: calculateCorrelation_def Let_def)

text \<open>In exact arithmetic the sample standard deviation of a constant sequence is 0.\<close>

lemma spec_stddev_constant: "spec_stddev (replicate n c) = 0"
proof -
  have "spec_mean (replicate n c) = c" if "0 < n"
    using that by (simp add: spec_mean_def sum_list_replicate)
  then have "(\<Sum>x\<leftarrow>replicate n c. (x - spec_mean (replicate n c)) ^ 2) = 0"
    by (cases n) (simp_all add: sum_list_replicate map_replicate_const)
  then show ?thesis by (simp add: spec_stddev_def)
qed

text \<open>
  C6. The claim is that the correlation is 0 whenever a sequence has zero sample standard
  deviation. The source tests the standard deviation it computed with \<open>=== 0\<close>, and that
  number is not 0 for every constant sequence. For the sequence 0.1, 0.1, 0.1 (0.1 is the
  double 3602879701896397 / 2^55) the sum 0.30000000000000004 divided by 3 is the mean
  0.10000000000000002, one unit in the last place above 0.1; each deviation is - 2^-56, the
  computed standard deviation is 1.6996749443881478e-17 and not 0, although the sample
  standard deviation of the sequence is 0, and the correlation of the sequence with itself
  comes out as 1.0000000000000002, that is 1 + 2^-52.
\<close>

theorem calculateCorrelation_constant_series:
  "round64 (1 / 10) = 3602879701896397 / 36028797018963968
   \<and> spec_stddev [3602879701896397 / 36028797018963968, 3602879701896397 / 36028797018963968,
                   3602879701896397 / 36028797018963968] = 0
   \<and> calculateStandardDeviation
         [3602879701896397 / 36028797018963968, 3602879701896397 / 36028797018963968,
          3602879701896397 / 36028797018963968]
       = 2757880273211543 / 162259276829213363391578010288128
   \<and> calculateCorrelation
         [3602879701896397 / 36028797018963968, 3602879701896397 / 36028797018963968,
          3602879701896397 / 36028797018963968]
         [3602879701896397 / 36028797018963968, 3602879701896397 / 36028797018963968,
          3602879701896397 / 36028797018963968]
       = 4503599627370497 / 4503599627370496"
proof -
  let ?d = "3602879701896397 / 36028797018963968 :: real"
  have "spec_stddev (replicate 3 ?d) = 0"
    by (rule spec_stddev_constant)
  then have "spec_stddev [?d, ?d, ?d] = 0"
    by (simp add: numeral_3_eq_3)
  moreover have "calculateCorrelation [?d, ?d, ?d] [?d, ?d, ?d]
                 = 4503599627370497 / 4503599627370496"
    by (simp add: calculateCorrelation_def sd_tenths cov_tenths tenth_product tenth_quotient)
  ultimately show ?thesis
    using round64_tenth sd_tenths by simp
qed

text \<open>
  At this input the two lengths agree and exceed 1, the computed standard deviation is not 0,
  and the result is not 0, while the sample standard deviation is 0.
\<close>

theorem calculateCorrelation_constant_series_witness:
  "length [3602879701896397 / 36028797018963968 :: real, 3602879701896397 / 36028797018963968,
           3602879701896397 / 36028797018963968] = 3
   \<and> spec_stddev [3602879701896397 / 36028797018963968, 3602879701896397 / 36028797018963968,
                   3602879701896397 / 36028797018963968] = 0
   \<and> calculateStandardDeviation
         [3602879701896397 / 36028797018963968, 3602879701896397 / 36028797018963968,
          3602879701896397 / 36028797018963968] \<noteq> 0
   \<and> calculateCorrelation
         [3602879701896397 / 36028797018963968, 3602879701896397 / 36028797018963968,
          3602879701896397 / 36028797018963968]
         [3602879701896397 / 36028797018963968, 3602879701896397 / 36028797018963968,
          3602879701896397 / 36028797018963968] \<noteq> 0"
  using calculateCorrelation_constant_series by simp

text \<open>
  C7, as amended. For a non-empty sequence the \<open>average\<close> aggregation is the mean; for the
  empty sequence the aggregation is \<open>null\<close>, although the mean of the empty sequence is 0.
\<close>

theorem calculateAggregation_average:
  "calculateAggregation xs ''average'' = (if xs = [] then None else Some (calculateMean xs))"
  by (simp add: calculateAggregation_def toLowerCase_def toLowerChar_def)

text \<open>
  C7, as stated, fails at the empty sequence: the aggregation is \<open>null\<close>, the mean is 0.
\<close>

theorem calculateAggregation_empty_counterexample:
  "calculateMean [] = 0 \<and> calculateAggregation [] ''average'' = None
   \<and> calculateAggregation [] ''average'' \<noteq> Some (calculateMean [])"
  by (simp add: calculateAggregation_def calculateMean_def)

section \<open>Properties of the series aligner\<close>

lemma findBefore_find:
  "i < int (length ts) \<Longrightarrow> findBefore ts m i = find (mapHas m) (rev (take (nat (i + 1)) ts))"
proof (induction ts m i rule: findBefore.induct)
  case (1 ts m i)
  show ?case
  proof (cases "i \<ge> 0")
    case False
    then show ?thesis by (subst findBefore.simps) simp
  next
    case True
    then have lt: "nat i < length ts" using "1.prems" by linarith
    have nat_eq: "nat (i + 1) = Suc (nat i)" "nat (i - 1 + 1) = nat i" using True by simp_all
    show ?thesis
    proof (cases "mapHas m (ts ! nat i)")
      case has: True
      then show ?thesis using True
        by (subst findBefore.simps) (simp add: nat_eq take_Suc_conv_app_nth [OF lt])
    next
      case nohas: False
      have "findBefore ts m (i - 1) = find (mapHas m) (rev (take (nat (i - 1 + 1)) ts))"
        using "1.IH" [OF True nohas] "1.prems" by simp
      then show ?thesis using True nohas
        by (subst findBefore.simps) (simp add: nat_eq take_Suc_conv_app_nth [OF lt])
    qed
  qed
qed

lemma findAfter_find:
  "0 \<le> i \<Longrightarrow> findAfter ts m i = find (mapHas m) (drop (nat i) ts)"
proof (induction ts m i rule: findAfter.induct)
  case (1 ts m i)
  show ?case
  proof (cases "i < int (length ts)")
    case False
    then show ?thesis using "1.prems" by (subst findAfter.simps) simp
  next
    case True
    then have lt: "nat i < length ts" using "1.prems" by linarith
    have dr: "drop (nat i) ts = ts ! nat i # drop (nat (i + 1)) ts"
      using "1.prems" by (simp add: Cons_nth_drop_Suc [OF lt] nat_add_distrib)
    show ?thesis
    proof (cases "mapHas m (ts ! nat i)")
      case has: True
      then show ?thesis using True by (subst findAfter.simps) (simp add: dr)
    next
      case nohas: False
      have "findAfter ts m (i + 1) = find (mapHas m) (drop (nat (i + 1)) ts)"
        using "1.IH" [OF True nohas] "1.prems" by simp
      then show ?thesis using True nohas by (subst findAfter.simps) (simp add: dr)
    qed
  qed
qed

lemma indexOf_split: "t \<notin> set xs \<Longrightarrow> indexOf (xs @ t # ys) t = int (length xs)"
proof -
  assume "t \<notin> set xs"
  then have "takeWhile (\<lambda>y. y \<noteq> t) (xs @ t # ys) = xs"
    by (subst takeWhile_append2) auto
  then show ?thesis by (simp add: indexOf_def)
qed

lemma findNearest_before_split:
  assumes "t \<notin> set xs"
  shows "findNearest (xs @ t # ys) t m ''before'' = find (mapHas m) (rev xs)"
proof -
  have "findBefore (xs @ t # ys) m (int (length xs) - 1)
        = find (mapHas m) (rev (take (nat (int (length xs) - 1 + 1)) (xs @ t # ys)))"
    by (rule findBefore_find) simp
  then show ?thesis using assms by (simp add: findNearest_def indexOf_split)
qed

lemma findNearest_after_split:
  assumes "t \<notin> set xs"
  shows "findNearest (xs @ t # ys) t m ''after'' = find (mapHas m) ys"
proof -
  have "findAfter (xs @ t # ys) m (int (length xs) + 1)
        = find (mapHas m) (drop (nat (int (length xs) + 1)) (xs @ t # ys))"
    by (rule findAfter_find) simp
  moreover have "nat (int (length xs) + 1) = Suc (length xs)" by simp
  ultimately show ?thesis using assms by (simp add: findNearest_def indexOf_split)
qed

lemma buildMap_snoc: "buildMap (xs @ [x]) = mapSet (lastUpdatedAt x) x (buildMap xs)"
  by (simp add: buildMap_def)

lemma map_of_buildMap_snoc:
  "map_of (buildMap (xs @ [x])) = (map_of (buildMap xs))(lastUpdatedAt x \<mapsto> x)"
  by (simp add: buildMap_snoc mapSet_def update_conv')

lemma buildMap_Nil: "buildMap [] = []"
  by (simp add: buildMap_def)

lemma buildMap_last_wins:
  "map_of (buildMap xs) k = find (\<lambda>e. lastUpdatedAt e = k) (rev xs)"
  by (induction xs rule: rev_induct) (simp_all add: buildMap_Nil map_of_buildMap_snoc)

lemma buildMap_key:
  "map_of (buildMap xs) k = Some e \<Longrightarrow> lastUpdatedAt e = k \<and> e \<in> set xs"
  by (induction xs rule: rev_induct)
    (auto simp: buildMap_Nil map_of_buildMap_snoc split: if_splits)

lemma set_mapKeys: "set (mapKeys m) = dom (map_of m)"
  by (simp add: mapKeys_def dom_map_of_conv_image_fst)

lemma mapHas_iff: "mapHas m k \<longleftrightarrow> k \<in> set (mapKeys m)"
  by (auto simp: mapHas_def set_mapKeys)

lemma keys_buildMap: "set (mapKeys (buildMap xs)) = lastUpdatedAt ` set xs"
proof (induction xs rule: rev_induct)
  case Nil
  show ?case by (simp add: buildMap_Nil mapKeys_def)
next
  case (snoc x xs)
  then show ?case by (simp add: set_mapKeys map_of_buildMap_snoc)
qed

lemma distinct_buildMap: "distinct (mapKeys (buildMap xs))"
  by (induction xs rule: rev_induct)
    (simp_all add: buildMap_Nil buildMap_snoc mapKeys_def mapSet_def distinct_update)

lemma set_uniqueValues: "set (uniqueValues xs) = set xs"
  by (simp add: uniqueValues_def)

lemma distinct_uniqueValues: "distinct (uniqueValues xs)"
  by (simp add: uniqueValues_def)

lemma set_unionTimestamps:
  "set (unionTimestamps m1 m2) = set (mapKeys m1) \<union> set (mapKeys m2)"
  by (simp add: unionTimestamps_def defaultSort_def set_uniqueValues)

lemma distinct_unionTimestamps: "distinct (unionTimestamps m1 m2)"
  by (simp add: unionTimestamps_def defaultSort_def distinct_uniqueValues)

lemma intersectionPass_foldl:
  "foldl (\<lambda>(aligned1, aligned2) timestamp.
            if mapHas m1 timestamp \<and> mapHas m2 timestamp
            then (aligned1 @ [the (mapGet m1 timestamp)], aligned2 @ [the (mapGet m2 timestamp)])
            else (aligned1, aligned2)) (a1, a2) ts
   = (a1 @ map (\<lambda>t. the (mapGet m1 t)) (filter (\<lambda>t. mapHas m1 t \<and> mapHas m2 t) ts),
      a2 @ map (\<lambda>t. the (mapGet m2 t)) (filter (\<lambda>t. mapHas m1 t \<and> mapHas m2 t) ts))"
  by (induction ts arbitrary: a1 a2) simp_all

lemma intersectionPass_filter:
  "intersectionPass ts m1 m2
   = (map (\<lambda>t. the (mapGet m1 t)) (filter (\<lambda>t. mapHas m1 t \<and> mapHas m2 t) ts),
      map (\<lambda>t. the (mapGet m2 t)) (filter (\<lambda>t. mapHas m1 t \<and> mapHas m2 t) ts))"
  unfolding intersectionPass_def intersectionPass_foldl by simp

lemma timestamp_of_get:
  "mapHas (buildMap xs) t \<Longrightarrow> lastUpdatedAt (the (mapGet (buildMap xs) t)) = t"
  by (auto simp: mapHas_def mapGet_def dest: buildMap_key)

lemma map_map_filter_id:
  "(\<And>t. P t \<Longrightarrow> f (g t) = t) \<Longrightarrow> map f (map g (filter P ts)) = filter P ts"
  by (induction ts) simp_all

lemma common_count:
  "length (filter (\<lambda>t. mapHas (buildMap A) t \<and> mapHas (buildMap B) t)
             (unionTimestamps (buildMap A) (buildMap B)))
   = card (lastUpdatedAt ` set A \<inter> lastUpdatedAt ` set B)"
proof -
  let ?ts = "unionTimestamps (buildMap A) (buildMap B)"
  let ?P = "\<lambda>t. mapHas (buildMap A) t \<and> mapHas (buildMap B) t"
  have "length (filter ?P ?ts) = card ({t. ?P t} \<inter> set ?ts)"
    by (rule distinct_length_filter [OF distinct_unionTimestamps])
  also have "{t. ?P t} \<inter> set ?ts = lastUpdatedAt ` set A \<inter> lastUpdatedAt ` set B"
    by (auto simp: mapHas_iff keys_buildMap set_unionTimestamps)
  finally show ?thesis .
qed

lemma resolveAt_append: "resolveAt ts t m r = r @ resolveAt ts t m []"
  by (simp add: resolveAt_def Let_def)

lemma interpolate_foldl:
  "n \<le> length ts \<Longrightarrow>
   foldl (\<lambda>(result1, result2) i.
            (let currentTime = ts ! i
             in (resolveAt ts currentTime m1 result1, resolveAt ts currentTime m2 result2)))
     (a, b) [0 ..< n]
   = (a @ concat (map (\<lambda>t. resolveAt ts t m1 []) (take n ts)),
      b @ concat (map (\<lambda>t. resolveAt ts t m2 []) (take n ts)))"
proof (induction n)
  case 0
  show ?case by simp
next
  case (Suc n)
  then have lt: "n < length ts" by simp
  show ?case
    using Suc.IH lt
    by (simp add: take_Suc_conv_app_nth [OF lt] Let_def
        resolveAt_append [of ts "ts ! n" m1 "a @ _"]
        resolveAt_append [of ts "ts ! n" m2 "b @ _"])
qed

lemma interpolateMissingData_concat:
  "interpolateMissingData A B ts m1 m2
   = \<lparr>stock1 = concat (map (\<lambda>t. resolveAt ts t m1 []) ts),
      stock2 = concat (map (\<lambda>t. resolveAt ts t m2 []) ts)\<rparr>"
  unfolding interpolateMissingData_def
  by (simp add: interpolate_foldl)

lemma find_rev_sorted:
  "sorted xs \<Longrightarrow>
   find P (rev xs) = (if filter P xs = [] then None else Some (Max (set (filter P xs))))"
proof (induction xs rule: rev_induct)
  case Nil
  show ?case by simp
next
  case (snoc x xs)
  then have le: "\<forall>y\<in>set xs. y \<le> x" and srt: "sorted xs"
    by (simp_all add: sorted_append)
  show ?case
  proof (cases "P x")
    case True
    have "Max (insert x (set (filter P xs))) = x"
      using le by (intro Max_eqI) auto
    then show ?thesis using True by simp
  next
    case False
    then show ?thesis using snoc.IH [OF srt] by simp
  qed
qed

lemma find_sorted:
  "sorted xs \<Longrightarrow>
   find P xs = (if filter P xs = [] then None else Some (Min (set (filter P xs))))"
proof (induction xs)
  case Nil
  show ?case by simp
next
  case (Cons x xs)
  then have le: "\<forall>y\<in>set xs. x \<le> y" and srt: "sorted xs"
    by simp_all
  show ?case
  proof (cases "P x")
    case True
    have "Min (insert x (set (filter P xs))) = x"
      using le by (intro Min_eqI) auto
    then show ?thesis using True by simp
  next
    case False
    then show ?thesis using Cons.IH [OF srt] by simp
  qed
qed


lemma nearestEarlier_key:
  "nearestEarlier m t = Some b \<Longrightarrow> b \<in> set (mapKeys m) \<and> b < t"
proof -
  assume a: "nearestEarlier m t = Some b"
  let ?ks = "filter (\<lambda>k. k < t) (mapKeys m)"
  from a have ne: "?ks \<noteq> []" and b: "b = Max (set ?ks)"
    by (auto simp: nearestEarlier_def Let_def split: if_splits)
  from ne have "set ?ks \<noteq> {}"
    by (simp only: set_empty not_False_eq_True)
  then have "Max (set ?ks) \<in> set ?ks"
    by (rule Max_in [OF finite_set])
  then show ?thesis using b by simp
qed

lemma nearestLater_key:
  "nearestLater m t = Some a \<Longrightarrow> a \<in> set (mapKeys m) \<and> t < a"
proof -
  assume a: "nearestLater m t = Some a"
  let ?ks = "filter (\<lambda>k. t < k) (mapKeys m)"
  from a have ne: "?ks \<noteq> []" and b: "a = Min (set ?ks)"
    by (auto simp: nearestLater_def Let_def split: if_splits)
  from ne have "set ?ks \<noteq> {}"
    by (simp only: set_empty not_False_eq_True)
  then have "Min (set ?ks) \<in> set ?ks"
    by (rule Min_in [OF finite_set])
  then show ?thesis using b by simp
qed

lemma findNearest_sorted:
  assumes srt: "sorted ts" and dist: "distinct ts" and mem: "t \<in> set ts"
    and keys: "set (mapKeys m) \<subseteq> set ts"
  shows "findNearest ts t m ''before'' = nearestEarlier m t"
    and "findNearest ts t m ''after'' = nearestLater m t"
proof -
  from mem obtain xs ys where ts: "ts = xs @ t # ys"
    by (auto dest: split_list)
  have notin: "t \<notin> set xs" "t \<notin> set ys"
    using dist ts by auto
  have sxs: "sorted xs" and sys: "sorted ys"
    using srt ts by (auto simp: sorted_append)
  have "\<forall>x\<in>set xs. x \<le> t" and "\<forall>y\<in>set ys. t \<le> y"
    using srt unfolding ts by (simp_all add: sorted_append)
  then have lo: "\<forall>x\<in>set xs. x < t" and hi: "\<forall>y\<in>set ys. t < y"
    using notin by (auto simp: less_le)
  have s1: "set (filter (mapHas m) xs) = set (filter (\<lambda>k. k < t) (mapKeys m))"
    using keys lo hi unfolding ts by (fastforce simp: mapHas_iff)
  have s2: "set (filter (mapHas m) ys) = set (filter (\<lambda>k. t < k) (mapKeys m))"
    using keys lo hi unfolding ts by (fastforce simp: mapHas_iff)
  have e1: "filter (mapHas m) xs = [] \<longleftrightarrow> filter (\<lambda>k. k < t) (mapKeys m) = []"
    using s1 by (metis set_empty)
  have e2: "filter (mapHas m) ys = [] \<longleftrightarrow> filter (\<lambda>k. t < k) (mapKeys m) = []"
    using s2 by (metis set_empty)
  show "findNearest ts t m ''before'' = nearestEarlier m t"
    unfolding ts findNearest_before_split [OF notin(1)] find_rev_sorted [OF sxs]
      nearestEarlier_def Let_def
    using s1 e1 by simp
  show "findNearest ts t m ''after'' = nearestLater m t"
    unfolding ts findNearest_after_split [OF notin(1)] find_sorted [OF sys]
      nearestLater_def Let_def
    using s2 e2 by simp
qed

lemma mapGet_key: "k \<in> set (mapKeys m) \<Longrightarrow> \<exists>e. mapGet m k = Some e"
  by (auto simp: mapGet_def set_mapKeys)

lemma resolveAt_spec:
  assumes srt: "sorted ts" and dist: "distinct ts" and mem: "t \<in> set ts"
    and keys: "set (mapKeys m) \<subseteq> set ts" and nz: "0 \<notin> set ts"
  shows "resolveAt ts t m [] = (case spec_point m t of None \<Rightarrow> [] | Some e \<Rightarrow> [e])"
proof (cases "mapGet m t")
  case (Some e)
  then show ?thesis
    by (simp add: resolveAt_def spec_point_def mapHas_def mapGet_def)
next
  case None
  note fn = findNearest_sorted [OF srt dist mem keys]
  have nohas: "\<not> mapHas m t"
    using None by (simp add: mapHas_def mapGet_def)
  show ?thesis
  proof (cases "nearestEarlier m t")
    case nb: None
    show ?thesis
    proof (cases "nearestLater m t")
      case na: None
      show ?thesis
        using None nohas nb na
        by (simp add: resolveAt_def spec_point_def fn truthy_def)
    next
      case na: (Some a)
      then have "a \<in> set (mapKeys m)" by (simp add: nearestLater_key)
      then obtain ea where ea: "mapGet m a = Some ea" and "a \<noteq> 0"
        using mapGet_key keys nz by blast
      then show ?thesis
        using None nohas nb na
        by (simp add: resolveAt_def spec_point_def fn truthy_def)
    qed
  next
    case nb: (Some b)
    then have "b \<in> set (mapKeys m)" by (simp add: nearestEarlier_key)
    then obtain eb where eb: "mapGet m b = Some eb" and bz: "b \<noteq> 0"
      using mapGet_key keys nz by blast
    show ?thesis
    proof (cases "nearestLater m t")
      case na: None
      show ?thesis
        using None nohas nb na eb bz
        by (simp add: resolveAt_def spec_point_def fn truthy_def)
    next
      case na: (Some a)
      then have "a \<in> set (mapKeys m)" by (simp add: nearestLater_key)
      then obtain ea where ea: "mapGet m a = Some ea" and az: "a \<noteq> 0"
        using mapGet_key keys nz by blast
      show ?thesis
        using None nohas nb na eb bz ea az
        by (simp add: resolveAt_def spec_point_def fn truthy_def Let_def)
    qed
  qed
qed

lemma concat_map_option:
  "concat (map (\<lambda>t. case f t of None \<Rightarrow> [] | Some e \<Rightarrow> [e]) ts) = List.map_filter f ts"
  by (induction ts) (simp_all add: List.map_filter_simps split: option.splits)

lemma truthy_Some: "truthy (Some k) \<longleftrightarrow> k \<noteq> 0"
  by (simp add: truthy_def)

lemma find_Some_mem: "find P xs = Some v \<Longrightarrow> v \<in> set xs \<and> P v"
  by (induction xs) (auto split: if_splits)

lemma resolveAt_one:
  assumes dist: "distinct ts" and mem: "t \<in> set ts" and keys: "set (mapKeys m) \<subseteq> set ts"
    and nz: "0 \<notin> set ts" and ne: "m \<noteq> []"
  shows "length (resolveAt ts t m []) = 1"
proof (cases "mapHas m t")
  case True
  then show ?thesis by (simp add: resolveAt_def)
next
  case False
  from mem obtain xs ys where ts: "ts = xs @ t # ys"
    by (auto dest: split_list)
  have notin: "t \<notin> set xs"
    using dist ts by auto
  let ?b = "find (mapHas m) (rev xs)" and ?a = "find (mapHas m) ys"
  have fb: "findNearest ts t m ''before'' = ?b" and fa: "findNearest ts t m ''after'' = ?a"
    unfolding ts by (rule findNearest_before_split [OF notin], rule findNearest_after_split [OF notin])
  from ne obtain k where k: "k \<in> set (mapKeys m)"
    by (cases m) (auto simp: mapKeys_def)
  then have "k \<noteq> t" using False by (auto simp: mapHas_iff)
  then have "k \<in> set xs \<or> k \<in> set ys"
    using k keys ts by auto
  then have some: "?b \<noteq> None \<or> ?a \<noteq> None"
    using k by (auto simp: find_None_iff mapHas_iff)
  have tb: "truthy ?b \<longleftrightarrow> ?b \<noteq> None"
  proof (cases ?b)
    case None
    then show ?thesis by (simp add: truthy_def)
  next
    case (Some v)
    then have "v \<in> set xs" by (auto dest: find_Some_mem)
    then have "v \<noteq> 0" using nz ts by auto
    then show ?thesis using Some by (simp add: truthy_def)
  qed
  have ta: "truthy ?a \<longleftrightarrow> ?a \<noteq> None"
  proof (cases ?a)
    case None
    then show ?thesis by (simp add: truthy_def)
  next
    case (Some v)
    then have "v \<in> set ys" by (auto dest: find_Some_mem)
    then have "v \<noteq> 0" using nz ts by auto
    then show ?thesis using Some by (simp add: truthy_def)
  qed
  show ?thesis
    using False some by (auto simp: resolveAt_def fb fa tb ta Let_def)
qed

lemma length_concat_singletons:
  "(\<And>t. t \<in> set ts \<Longrightarrow> length (f t) = 1) \<Longrightarrow> length (concat (map f ts)) = length ts"
  by (induction ts) simp_all

lemma buildMap_nonempty: "A \<noteq> [] \<Longrightarrow> buildMap A \<noteq> []"
proof
  assume "A \<noteq> []" and "buildMap A = []"
  then have "lastUpdatedAt ` set A = {}"
    using keys_buildMap [of A] by (simp add: mapKeys_def)
  then show False using \<open>A \<noteq> []\<close> by simp
qed

lemma timeAlignPriceData_degenerate:
  "length (unionTimestamps (buildMap A) (buildMap B)) \<le> 1
   \<Longrightarrow> timeAlignPriceData A B = \<lparr>stock1 = A, stock2 = B\<rparr>"
  by (simp add: timeAlignPriceData_def)

lemma timeAlignPriceData_equal_lengths:
  assumes "A \<noteq> []" and "B \<noteq> []"
    and nz: "0 \<notin> lastUpdatedAt ` set A \<union> lastUpdatedAt ` set B"
    and big: "1 < length (unionTimestamps (buildMap A) (buildMap B))"
  shows "length (stock1 (timeAlignPriceData A B)) = length (stock2 (timeAlignPriceData A B))"
proof -
  let ?m1 = "buildMap A" and ?m2 = "buildMap B"
  let ?ts = "unionTimestamps ?m1 ?m2"
  have set_ts: "set ?ts = lastUpdatedAt ` set A \<union> lastUpdatedAt ` set B"
    by (simp add: set_unionTimestamps keys_buildMap)
  have nz': "0 \<notin> set ?ts" using nz set_ts by simp
  have k1: "set (mapKeys ?m1) \<subseteq> set ?ts" and k2: "set (mapKeys ?m2) \<subseteq> set ?ts"
    by (simp_all add: set_unionTimestamps)
  have l1: "length (concat (map (\<lambda>t. resolveAt ?ts t ?m1 []) ?ts)) = length ?ts"
    by (rule length_concat_singletons)
      (rule resolveAt_one [OF distinct_unionTimestamps _ k1 nz' buildMap_nonempty [OF assms(1)]])
  have l2: "length (concat (map (\<lambda>t. resolveAt ?ts t ?m2 []) ?ts)) = length ?ts"
    by (rule length_concat_singletons)
      (rule resolveAt_one [OF distinct_unionTimestamps _ k2 nz' buildMap_nonempty [OF assms(2)]])
  show ?thesis
    using big l1 l2
    by (simp add: timeAlignPriceData_def Let_def intersectionPass_filter
        interpolateMissingData_concat)
qed

text \<open>
  A timestamp that \<open>findNearest\<close> returns is a key of the map, so the \<open>get\<close> that follows
  it in \<open>interpolateMissingData\<close> finds a point.
\<close>

lemma findBefore_has: "findBefore ts m i = Some k \<Longrightarrow> mapHas m k"
proof (induction ts m i rule: findBefore.induct)
  case (1 ts m i)
  from "1.prems" show ?case
    by (subst (asm) findBefore.simps) (auto split: if_splits intro: "1.IH")
qed

lemma findAfter_has: "findAfter ts m i = Some k \<Longrightarrow> mapHas m k"
proof (induction ts m i rule: findAfter.induct)
  case (1 ts m i)
  from "1.prems" show ?case
    by (subst (asm) findAfter.simps) (auto split: if_splits intro: "1.IH")
qed

lemma findNearest_has: "findNearest ts t m direction = Some k \<Longrightarrow> mapHas m k"
  by (auto simp: findNearest_def split: if_splits dest: findBefore_has findAfter_has)

lemma interpolation_pass_spec:
  assumes "sorted ts" and "distinct ts" and "0 \<notin> set ts"
    and "set (mapKeys m1) \<subseteq> set ts" and "set (mapKeys m2) \<subseteq> set ts"
  shows "interpolateMissingData A B ts m1 m2
         = \<lparr>stock1 = spec_series m1 ts, stock2 = spec_series m2 ts\<rparr>"
proof -
  have r1: "map (\<lambda>t. resolveAt ts t m1 []) ts
            = map (\<lambda>t. case spec_point m1 t of None \<Rightarrow> [] | Some e \<Rightarrow> [e]) ts"
    using assms by (intro map_cong refl resolveAt_spec)
  have r2: "map (\<lambda>t. resolveAt ts t m2 []) ts
            = map (\<lambda>t. case spec_point m2 t of None \<Rightarrow> [] | Some e \<Rightarrow> [e]) ts"
    using assms by (intro map_cong refl resolveAt_spec)
  show ?thesis
    unfolding interpolateMissingData_concat r1 r2 concat_map_option spec_series_def ..
qed

text \<open>
  With at least two common timestamps the intersection pass gives the result, and the
  timestamps of both output series are the common timestamps, in the order of the
  timestamp list.
\<close>

lemma intersection_pass_timestamps:
  assumes "2 \<le> card (lastUpdatedAt ` set A \<inter> lastUpdatedAt ` set B)"
  shows "map lastUpdatedAt (stock1 (timeAlignPriceData A B))
         = filter (\<lambda>t. mapHas (buildMap A) t \<and> mapHas (buildMap B) t)
             (unionTimestamps (buildMap A) (buildMap B))"
    and "map lastUpdatedAt (stock2 (timeAlignPriceData A B))
         = filter (\<lambda>t. mapHas (buildMap A) t \<and> mapHas (buildMap B) t)
             (unionTimestamps (buildMap A) (buildMap B))"
proof -
  let ?m1 = "buildMap A" and ?m2 = "buildMap B"
  let ?ts = "unionTimestamps ?m1 ?m2"
  let ?P = "\<lambda>t. mapHas ?m1 t \<and> mapHas ?m2 t"
  have two: "2 \<le> length (filter ?P ?ts)"
    using assms by (simp add: common_count)
  moreover have "length (filter ?P ?ts) \<le> length ?ts"
    by (rule length_filter_le)
  ultimately have big: "\<not> length ?ts \<le> 1" by linarith
  have out: "timeAlignPriceData A B
             = \<lparr>stock1 = map (\<lambda>t. the (mapGet ?m1 t)) (filter ?P ?ts),
                stock2 = map (\<lambda>t. the (mapGet ?m2 t)) (filter ?P ?ts)\<rparr>"
    using big two by (simp add: timeAlignPriceData_def Let_def intersectionPass_filter)
  have t1: "map lastUpdatedAt (map (\<lambda>t. the (mapGet ?m1 t)) (filter ?P ?ts)) = filter ?P ?ts"
    by (rule map_map_filter_id) (simp add: timestamp_of_get)
  have t2: "map lastUpdatedAt (map (\<lambda>t. the (mapGet ?m2 t)) (filter ?P ?ts)) = filter ?P ?ts"
    by (rule map_map_filter_id) (simp add: timestamp_of_get)
  show "map lastUpdatedAt (stock1 (timeAlignPriceData A B)) = filter ?P ?ts"
    unfolding out using t1 by simp
  show "map lastUpdatedAt (stock2 (timeAlignPriceData A B)) = filter ?P ?ts"
    unfolding out using t2 by simp
qed

subsection \<open>Where the default sort is the numeric sort\<close>

text \<open>
  The decimal numerals of non-negative numbers with the same number of digits are ordered
  like the numbers. For series whose timestamps are all non-negative with numerals of one
  length (as the instants from 2001-09-09T01:46:40Z to 2286-11-20 are, with 13 digits) the
  timestamp list is therefore ascending, and so are the outputs of the intersection pass;
  in the interpolation pass the result is the specification's rule over the ascending list
  of all timestamps.
\<close>

lemma of_char_digitChar: "d < 10 \<Longrightarrow> of_char (digitChar d) = (48 + d :: nat)"
proof -
  assume "d < 10"
  then have "d \<in> {0, 1, 2, 3, 4, 5, 6, 7, 8, 9}" by auto
  then show ?thesis by (auto simp: digitChar_def)
qed

lemma digitChar_less: "a < 10 \<Longrightarrow> b < 10 \<Longrightarrow> digitChar a < digitChar b \<longleftrightarrow> a < b"
  by (simp add: less_char_def of_char_digitChar)

lemma snoc_less_snoc:
  "length xs = length ys \<Longrightarrow>
   xs @ [a] < ys @ [b] \<longleftrightarrow> xs < ys \<or> xs = ys \<and> a < (b :: 'a :: linorder)"
  by (induction xs ys rule: list_induct2) auto

lemma length_natDigits_one: "length (natDigits n) = Suc 0 \<longleftrightarrow> n < 10"
  by (subst natDigits.simps) (auto simp: natDigits.simps [of "n div 10"])

lemma digits_less_aux:
  "b < 10 \<Longrightarrow> d < 10 \<Longrightarrow> (10 * a + b < 10 * c + d \<longleftrightarrow> a < c \<or> a = c \<and> b < (d::nat))"
  by arith

lemma less_div_mod_10:
  "(n::nat) < m \<longleftrightarrow> n div 10 < m div 10 \<or> n div 10 = m div 10 \<and> n mod 10 < m mod 10"
proof -
  have "n = 10 * (n div 10) + n mod 10" "m = 10 * (m div 10) + m mod 10" by simp_all
  then have "n < m \<longleftrightarrow> 10 * (n div 10) + n mod 10 < 10 * (m div 10) + m mod 10" by metis
  then show ?thesis
    by (simp only: digits_less_aux [of "n mod 10" "m mod 10" "n div 10" "m div 10"]
        mod_less_divisor zero_less_numeral)
qed

lemma natDigits_less:
  "length (natDigits n) = length (natDigits m) \<Longrightarrow>
   (natDigits n < natDigits m \<longleftrightarrow> n < m) \<and> (natDigits m < natDigits n \<longleftrightarrow> m < n)"
proof (induction n arbitrary: m rule: natDigits.induct)
  case (1 n)
  show ?case
  proof (cases "n < 10")
    case True
    then have "length (natDigits n) = Suc 0" using length_natDigits_one [of n] by blast
    then have "length (natDigits m) = Suc 0" using "1.prems" by simp
    then have m: "m < 10" using length_natDigits_one [of m] by blast
    have "natDigits n = [digitChar n]" "natDigits m = [digitChar m]"
      using True m by (simp_all add: natDigits.simps)
    then show ?thesis using True m by (simp add: digitChar_less)
  next
    case False
    then have "length (natDigits n) \<noteq> Suc 0" using length_natDigits_one [of n] by blast
    then have "length (natDigits m) \<noteq> Suc 0" using "1.prems" by simp
    then have m: "\<not> m < 10" using length_natDigits_one [of m] by blast
    have dn: "natDigits n = natDigits (n div 10) @ [digitChar (n mod 10)]"
      using False by (subst natDigits.simps) simp
    have dm: "natDigits m = natDigits (m div 10) @ [digitChar (m mod 10)]"
      using m by (subst natDigits.simps) simp
    have len: "length (natDigits (n div 10)) = length (natDigits (m div 10))"
      using "1.prems" by (simp add: dn dm)
    from "1.IH" [OF False len]
    have lt1: "natDigits (n div 10) < natDigits (m div 10) \<longleftrightarrow> n div 10 < m div 10"
      and lt2: "natDigits (m div 10) < natDigits (n div 10) \<longleftrightarrow> m div 10 < n div 10"
      by simp_all
    have eq: "natDigits (n div 10) = natDigits (m div 10) \<longleftrightarrow> n div 10 = m div 10"
      using lt1 lt2 by (metis less_irrefl linorder_neqE_nat not_less_iff_gr_or_eq)
    have d1: "digitChar (n mod 10) < digitChar (m mod 10) \<longleftrightarrow> n mod 10 < m mod 10"
      by (rule digitChar_less) simp_all
    have d2: "digitChar (m mod 10) < digitChar (n mod 10) \<longleftrightarrow> m mod 10 < n mod 10"
      by (rule digitChar_less) simp_all
    have "natDigits n < natDigits m \<longleftrightarrow> n < m"
      unfolding dn dm snoc_less_snoc [OF len] lt1 eq d1
      by (rule less_div_mod_10 [symmetric])
    moreover have "natDigits m < natDigits n \<longleftrightarrow> m < n"
      unfolding dn dm snoc_less_snoc [OF len [symmetric]] lt2 eq [symmetric] d2
      using less_div_mod_10 [of m n] eq by (simp add: eq_commute)
    ultimately show ?thesis ..
  qed
qed


lemma numberToString_le:
  assumes "0 \<le> x" and "0 \<le> y"
    and "length (numberToString x) = length (numberToString y)"
    and "numberToString x \<le> numberToString y"
  shows "x \<le> y"
proof -
  have nx: "numberToString x = natDigits (nat x)" and ny: "numberToString y = natDigits (nat y)"
    using assms(1,2) by (simp_all add: numberToString_def)
  have "natDigits (nat y) < natDigits (nat x) \<longleftrightarrow> nat y < nat x"
    using natDigits_less [of "nat x" "nat y"] assms(3) by (simp add: nx ny)
  moreover have "\<not> natDigits (nat y) < natDigits (nat x)"
    using assms(4) by (simp add: nx ny not_less)
  ultimately show ?thesis using assms(1,2) by linarith
qed

lemma defaultSort_sorted:
  assumes "\<forall>t\<in>set xs. 0 \<le> t \<and> length (numberToString t) = L"
  shows "sorted (defaultSort xs)"
proof -
  have "sorted (map numberToString (defaultSort xs))"
    by (simp add: defaultSort_def)
  then have "sorted_wrt (\<lambda>x y. numberToString x \<le> numberToString y) (defaultSort xs)"
    by (simp add: sorted_map)
  moreover have "x \<le> y"
    if "x \<in> set (defaultSort xs)" and "y \<in> set (defaultSort xs)"
      and "numberToString x \<le> numberToString y" for x y
  proof -
    from that(1,2) have "x \<in> set xs" "y \<in> set xs" by (simp_all add: defaultSort_def)
    then have "0 \<le> x" "0 \<le> y" "length (numberToString x) = length (numberToString y)"
      using assms by simp_all
    then show ?thesis using that(3) by (rule numberToString_le)
  qed
  ultimately show ?thesis
    by (rule sorted_wrt_mono_rel [rotated])
qed

lemma unionTimestamps_sorted:
  assumes "\<forall>t \<in> lastUpdatedAt ` set A \<union> lastUpdatedAt ` set B.
             0 \<le> t \<and> length (numberToString t) = L"
  shows "sorted (unionTimestamps (buildMap A) (buildMap B))"
  unfolding unionTimestamps_def
  by (rule defaultSort_sorted [where L = L])
    (use assms in \<open>simp add: set_uniqueValues keys_buildMap\<close>)

lemma unionTimestamps_sorted_list:
  assumes "\<forall>t \<in> lastUpdatedAt ` set A \<union> lastUpdatedAt ` set B.
             0 \<le> t \<and> length (numberToString t) = L"
  shows "unionTimestamps (buildMap A) (buildMap B)
         = sorted_list_of_set (lastUpdatedAt ` set A \<union> lastUpdatedAt ` set B)"
proof -
  let ?ts = "unionTimestamps (buildMap A) (buildMap B)"
  have "set ?ts = lastUpdatedAt ` set A \<union> lastUpdatedAt ` set B"
    by (simp add: set_unionTimestamps keys_buildMap)
  then have "set ?ts = set (sorted_list_of_set (lastUpdatedAt ` set A \<union> lastUpdatedAt ` set B))"
    by simp
  with unionTimestamps_sorted [OF assms] distinct_unionTimestamps [of "buildMap A" "buildMap B"]
  show ?thesis
    by (intro sorted_distinct_set_unique) simp_all
qed

lemma timeAlignPriceData_interpolation_spec:
  assumes digits: "\<forall>t \<in> lastUpdatedAt ` set A \<union> lastUpdatedAt ` set B.
                     0 < t \<and> length (numberToString t) = L"
    and sparse: "card (lastUpdatedAt ` set A \<inter> lastUpdatedAt ` set B) < 2"
    and many: "1 < card (lastUpdatedAt ` set A \<union> lastUpdatedAt ` set B)"
  shows "timeAlignPriceData A B
         = \<lparr>stock1 = spec_series (buildMap A)
                       (sorted_list_of_set (lastUpdatedAt ` set A \<union> lastUpdatedAt ` set B)),
            stock2 = spec_series (buildMap B)
                       (sorted_list_of_set (lastUpdatedAt ` set A \<union> lastUpdatedAt ` set B))\<rparr>"
proof -
  let ?m1 = "buildMap A" and ?m2 = "buildMap B"
  let ?ts = "unionTimestamps ?m1 ?m2"
  let ?U = "lastUpdatedAt ` set A \<union> lastUpdatedAt ` set B"
  have digits': "\<forall>t \<in> ?U. 0 \<le> t \<and> length (numberToString t) = L"
  proof
    fix t assume "t \<in> ?U"
    then have "0 < t \<and> length (numberToString t) = L" using digits by blast
    then show "0 \<le> t \<and> length (numberToString t) = L" by simp
  qed
  have set_ts: "set ?ts = ?U"
    by (simp add: set_unionTimestamps keys_buildMap)
  have ts: "?ts = sorted_list_of_set ?U"
    by (rule unionTimestamps_sorted_list [OF digits'])
  have "length ?ts = card ?U"
    using distinct_card [OF distinct_unionTimestamps [of ?m1 ?m2]] set_ts by simp
  then have big: "\<not> length ?ts \<le> 1" using many by simp
  have few: "length (filter (\<lambda>t. mapHas ?m1 t \<and> mapHas ?m2 t) ?ts) < 2"
    using sparse by (simp add: common_count)
  have nz: "0 \<notin> set ?ts" using digits set_ts by auto
  have k1: "set (mapKeys ?m1) \<subseteq> set ?ts" and k2: "set (mapKeys ?m2) \<subseteq> set ?ts"
    by (simp_all add: set_unionTimestamps)
  have "timeAlignPriceData A B = interpolateMissingData A B ?ts ?m1 ?m2"
    using big few by (simp add: timeAlignPriceData_def Let_def intersectionPass_filter)
  also have "\<dots> = \<lparr>stock1 = spec_series ?m1 ?ts, stock2 = spec_series ?m2 ?ts\<rparr>"
    using unionTimestamps_sorted [OF digits'] distinct_unionTimestamps nz k1 k2
    by (rule interpolation_pass_spec)
  finally show ?thesis unfolding ts .
qed

lemma intersection_pass_ascending:
  assumes "\<forall>t \<in> lastUpdatedAt ` set A \<union> lastUpdatedAt ` set B.
             0 \<le> t \<and> length (numberToString t) = L"
    and "2 \<le> card (lastUpdatedAt ` set A \<inter> lastUpdatedAt ` set B)"
  shows "sorted (map lastUpdatedAt (stock1 (timeAlignPriceData A B)))
       \<and> sorted (map lastUpdatedAt (stock2 (timeAlignPriceData A B)))"
  unfolding intersection_pass_timestamps [OF assms(2)]
  using unionTimestamps_sorted [OF assms(1)] by (simp add: sorted_wrt_filter)

subsection \<open>Evaluating the aligner\<close>

lemmas aligner_eval = timeAlignPriceData_def buildMap_def unionTimestamps_def intersectionPass_def
  interpolateMissingData_def resolveAt_def findNearest_def findBefore.simps findAfter.simps
  indexOf_def uniqueValues_def mapKeys_def mapGet_def mapHas_def mapSet_def defaultSort_def
  numberToString_def natDigits.simps digitChar_def truthy_def Let_def


subsection \<open>The claims about the aligner\<close>

text \<open>
  C1. The claim is that the union of the timestamps is sorted in ascending instant order, so
  that both output series ascend. The source sorts with \<open>.sort()\<close> and no comparison
  function, which orders the numbers by their decimal numerals as strings. At the instants
  999999999999 and 1000000000000 (2001-09-09T01:46:39.999Z and one millisecond later), present
  in both series, the numeral \<open>1000000000000\<close> sorts first: the timestamp list and both
  output series descend.
\<close>

theorem timeAlignPriceData_string_order:
  "unionTimestamps
     (buildMap [\<lparr>lastUpdatedAt = 999999999999, price = 1, interpolated = False\<rparr>,
                \<lparr>lastUpdatedAt = 1000000000000, price = 2, interpolated = False\<rparr>])
     (buildMap [\<lparr>lastUpdatedAt = 999999999999, price = 3, interpolated = False\<rparr>,
                \<lparr>lastUpdatedAt = 1000000000000, price = 4, interpolated = False\<rparr>])
   = [1000000000000, 999999999999]
   \<and> timeAlignPriceData
       [\<lparr>lastUpdatedAt = 999999999999, price = 1, interpolated = False\<rparr>,
        \<lparr>lastUpdatedAt = 1000000000000, price = 2, interpolated = False\<rparr>]
       [\<lparr>lastUpdatedAt = 999999999999, price = 3, interpolated = False\<rparr>,
        \<lparr>lastUpdatedAt = 1000000000000, price = 4, interpolated = False\<rparr>]
     = \<lparr>stock1 = [\<lparr>lastUpdatedAt = 1000000000000, price = 2, interpolated = False\<rparr>,
                   \<lparr>lastUpdatedAt = 999999999999, price = 1, interpolated = False\<rparr>],
        stock2 = [\<lparr>lastUpdatedAt = 1000000000000, price = 4, interpolated = False\<rparr>,
                   \<lparr>lastUpdatedAt = 999999999999, price = 3, interpolated = False\<rparr>]\<rparr>
   \<and> \<not> sorted (map lastUpdatedAt (stock1 (timeAlignPriceData
         [\<lparr>lastUpdatedAt = 999999999999, price = 1, interpolated = False\<rparr>,
          \<lparr>lastUpdatedAt = 1000000000000, price = 2, interpolated = False\<rparr>]
         [\<lparr>lastUpdatedAt = 999999999999, price = 3, interpolated = False\<rparr>,
          \<lparr>lastUpdatedAt = 1000000000000, price = 4, interpolated = False\<rparr>])))"
  by (simp add: aligner_eval)

text \<open>
  C2. The claim is that two non-empty series come back with equal lengths unless at most one
  distinct timestamp exists. Lemma \<open>timeAlignPriceData_degenerate\<close> and lemma
  \<open>timeAlignPriceData_equal_lengths\<close> above show this for all series without the
  timestamp 0. With a point at the epoch instant 0 the truthiness tests of
  \<open>interpolateMissingData\<close> take the timestamp that \<open>findNearest\<close> found for no
  timestamp: series 1 has one point, at 0, series 2 one point, at 60000; at 60000 series 1
  gets nothing, and the result has lengths 1 and 2.
\<close>

theorem timeAlignPriceData_epoch_lengths:
  "length (unionTimestamps
     (buildMap [\<lparr>lastUpdatedAt = 0, price = 10, interpolated = False\<rparr>])
     (buildMap [\<lparr>lastUpdatedAt = 60000, price = 20, interpolated = False\<rparr>])) = 2
   \<and> findNearest [0, 60000] 60000
         (buildMap [\<lparr>lastUpdatedAt = 0, price = 10, interpolated = False\<rparr>]) ''before'' = Some 0
   \<and> timeAlignPriceData
       [\<lparr>lastUpdatedAt = 0, price = 10, interpolated = False\<rparr>]
       [\<lparr>lastUpdatedAt = 60000, price = 20, interpolated = False\<rparr>]
     = \<lparr>stock1 = [\<lparr>lastUpdatedAt = 0, price = 10, interpolated = False\<rparr>],
        stock2 = [\<lparr>lastUpdatedAt = 60000, price = 20, interpolated = False\<rparr>,
                   \<lparr>lastUpdatedAt = 60000, price = 20, interpolated = False\<rparr>]\<rparr>"
  by (simp add: aligner_eval)




text \<open>
  C5, as amended. When at least two timestamps are common to both input series, so that the
  intersection pass gives the result, no two points of an output series share a timestamp,
  whatever duplicates the inputs hold (\<open>buildMap_last_wins\<close>: the map keeps the last point
  written for a timestamp).
\<close>

theorem aligned_distinct_timestamps:
  assumes "2 \<le> card (lastUpdatedAt ` set A \<inter> lastUpdatedAt ` set B)"
  shows "distinct (map lastUpdatedAt (stock1 (timeAlignPriceData A B)))
       \<and> distinct (map lastUpdatedAt (stock2 (timeAlignPriceData A B)))"
  unfolding intersection_pass_timestamps [OF assms]
  by (simp add: distinct_unionTimestamps)

theorem aligned_distinct_timestamps_witness:
  "2 \<le> card (lastUpdatedAt ` set [\<lparr>lastUpdatedAt = 10, price = 1, interpolated = False\<rparr>,
                                    \<lparr>lastUpdatedAt = 20, price = 2, interpolated = False\<rparr>,
                                    \<lparr>lastUpdatedAt = 20, price = 5, interpolated = False\<rparr>]
              \<inter> lastUpdatedAt ` set [\<lparr>lastUpdatedAt = 20, price = 3, interpolated = False\<rparr>,
                                      \<lparr>lastUpdatedAt = 10, price = 4, interpolated = False\<rparr>])
   \<and> distinct (map lastUpdatedAt (stock1 (timeAlignPriceData
        [\<lparr>lastUpdatedAt = 10, price = 1, interpolated = False\<rparr>,
         \<lparr>lastUpdatedAt = 20, price = 2, interpolated = False\<rparr>,
         \<lparr>lastUpdatedAt = 20, price = 5, interpolated = False\<rparr>]
        [\<lparr>lastUpdatedAt = 20, price = 3, interpolated = False\<rparr>,
         \<lparr>lastUpdatedAt = 10, price = 4, interpolated = False\<rparr>])))
   \<and> distinct (map lastUpdatedAt (stock2 (timeAlignPriceData
        [\<lparr>lastUpdatedAt = 10, price = 1, interpolated = False\<rparr>,
         \<lparr>lastUpdatedAt = 20, price = 2, interpolated = False\<rparr>,
         \<lparr>lastUpdatedAt = 20, price = 5, interpolated = False\<rparr>]
        [\<lparr>lastUpdatedAt = 20, price = 3, interpolated = False\<rparr>,
         \<lparr>lastUpdatedAt = 10, price = 4, interpolated = False\<rparr>])))"
  using aligned_distinct_timestamps [of
      "[\<lparr>lastUpdatedAt = 10, price = 1, interpolated = False\<rparr>,
        \<lparr>lastUpdatedAt = 20, price = 2, interpolated = False\<rparr>,
        \<lparr>lastUpdatedAt = 20, price = 5, interpolated = False\<rparr>]"
      "[\<lparr>lastUpdatedAt = 20, price = 3, interpolated = False\<rparr>,
        \<lparr>lastUpdatedAt = 10, price = 4, interpolated = False\<rparr>]"]
  by simp

text \<open>
  C5, as stated, fails in the two other branches. With one distinct timestamp the inputs are
  returned as they are, here with two points at 5 in the first series. In the interpolation
  pass a bound's point that is used as it is keeps its own timestamp: with one point at 10 in
  the first series and one at 20 in the second, each output series holds its point twice.
\<close>

theorem aligned_duplicates_counterexample:
  "timeAlignPriceData
     [\<lparr>lastUpdatedAt = 5, price = 1, interpolated = False\<rparr>,
      \<lparr>lastUpdatedAt = 5, price = 2, interpolated = False\<rparr>]
     [\<lparr>lastUpdatedAt = 5, price = 3, interpolated = False\<rparr>]
   = \<lparr>stock1 = [\<lparr>lastUpdatedAt = 5, price = 1, interpolated = False\<rparr>,
                 \<lparr>lastUpdatedAt = 5, price = 2, interpolated = False\<rparr>],
      stock2 = [\<lparr>lastUpdatedAt = 5, price = 3, interpolated = False\<rparr>]\<rparr>
   \<and> timeAlignPriceData
       [\<lparr>lastUpdatedAt = 10, price = 10, interpolated = False\<rparr>]
       [\<lparr>lastUpdatedAt = 20, price = 20, interpolated = False\<rparr>]
     = \<lparr>stock1 = [\<lparr>lastUpdatedAt = 10, price = 10, interpolated = False\<rparr>,
                   \<lparr>lastUpdatedAt = 10, price = 10, interpolated = False\<rparr>],
        stock2 = [\<lparr>lastUpdatedAt = 20, price = 20, interpolated = False\<rparr>,
                   \<lparr>lastUpdatedAt = 20, price = 20, interpolated = False\<rparr>]\<rparr>
   \<and> \<not> distinct (map lastUpdatedAt (stock1 (timeAlignPriceData
         [\<lparr>lastUpdatedAt = 10, price = 10, interpolated = False\<rparr>]
         [\<lparr>lastUpdatedAt = 20, price = 20, interpolated = False\<rparr>])))"
  by (simp add: aligner_eval)

section \<open>Properties of the tiered cache\<close>

lemma lessEq_Some: "lessEq (Some m) n \<longleftrightarrow> m \<le> n"
  by (simp add: lessEq_def)

text \<open>
  C8. The tier depends on the minutes of the request alone: at most 5 minutes select the
  short tier, more than 5 and at most 30 the medium tier, more than 30 the long tier,
  whatever the kind of request. (\<open>getCacheForType\<close> takes no other input than the kind,
  which it ignores, and the minutes; \<open>setCachedData_routes\<close> below: a put leaves the two
  other tiers as they were.)
\<close>

theorem getCacheForType_ranges:
  "(m \<le> 5 \<longrightarrow> getCacheForType ty (Some m) = ShortTerm)
   \<and> (5 < m \<and> m \<le> 30 \<longrightarrow> getCacheForType ty (Some m) = MediumTerm)
   \<and> (30 < m \<longrightarrow> getCacheForType ty (Some m) = LongTerm)
   \<and> getCacheForType ty (Some m) = getCacheForType ty' (Some m)"
  by (simp add: getCacheForType_def lessEq_Some)

text \<open>
  The three boundary requests of the claim: 5 minutes, 30 minutes and 31 minutes.
\<close>

theorem getCacheForType_ranges_witness:
  "getCacheForType ''stockPrice'' (Some 5) = ShortTerm
   \<and> getCacheForType ''correlation'' (Some 30) = MediumTerm
   \<and> getCacheForType ''correlation'' (Some 31) = LongTerm"
  using getCacheForType_ranges [of 5 "''stockPrice''" "''correlation''"]
    getCacheForType_ranges [of 30 "''correlation''" "''stockPrice''"]
    getCacheForType_ranges [of 31 "''correlation''" "''stockPrice''"]
  by simp

lemma tierCache_tierUpdate: "tierCache t (tierUpdate t c cs) = c"
  by (cases t) simp_all

lemma tierCache_tierUpdate_other: "t' \<noteq> t \<Longrightarrow> tierCache t' (tierUpdate t c cs) = tierCache t' cs"
  by (cases t; cases t') simp_all

lemma tierUpdate_same: "tierUpdate t (tierCache t cs) cs = cs"
  by (cases t) simp_all

lemma setCachedData_routes:
  assumes "setCachedData sf ty p d ttl cs h now = Inr (cs', h')"
    and "t \<noteq> getCacheForType ty (minutes p)"
  shows "tierCache t cs' = tierCache t cs"
  using assms
  by (auto simp: setCachedData_def Let_def tierCache_tierUpdate_other split: sum.splits)

lemma sort_pair: "sort [A, B :: string] = sort [B, A]"
  by auto

text \<open>
  C9. For a correlation request the key, and the whole result of \<open>createCacheKey\<close>, is the
  same for the tickers \<open>[A, B]\<close> and \<open>[B, A]\<close>, with the same minutes: the key is built from
  the sorted tickers.
\<close>

theorem createCacheKey_symmetric:
  "createCacheKey sf ''correlation'' (p\<lparr>tickers := Some a\<rparr>) (h(a \<mapsto> StrArray [A, B]))
   = createCacheKey sf ''correlation'' (p\<lparr>tickers := Some a\<rparr>) (h(a \<mapsto> StrArray [B, A]))
   \<and> (\<exists>h'. createCacheKey sf ''correlation'' (p\<lparr>tickers := Some a\<rparr>) (h(a \<mapsto> StrArray [A, B]))
         = Inr (''corr:'' @ join ''_'' (sort [A, B]) @ '':'' @ templateNumber (minutes p), h'))"
  using sort_pair [of A B]
  by (simp add: createCacheKey_def Let_def del: sort_key_simps)

lemma createCacheKey_correlation:
  assumes "tickers p = Some a" and "h a = Some (StrArray ts)"
  shows "createCacheKey sf ''correlation'' p h
         = Inr (''corr:'' @ join ''_'' (sort ts) @ '':'' @ templateNumber (minutes p),
                h(a \<mapsto> StrArray (sort ts)))"
  using assms by (simp add: createCacheKey_def Let_def)

text \<open>
  C10. For a correlation request whose \<open>tickers\<close> refer to an array of strings,
  \<open>createCacheKey\<close> leaves that array sorted in the store of objects, and so does every
  \<open>getCachedData\<close> and every \<open>setCachedData\<close> for the request, since both build the key.
  Whoever holds the reference of the array reads the sorted order afterwards.
\<close>

theorem createCacheKey_sorts_in_place:
  assumes "tickers p = Some a" and "h a = Some (StrArray ts)"
  shows "(\<exists>key. createCacheKey sf ''correlation'' p h = Inr (key, h(a \<mapsto> StrArray (sort ts))))
       \<and> (\<exists>r cs'. getCachedData sf ''correlation'' p cs h now
                     = Inr (r, cs', h(a \<mapsto> StrArray (sort ts))))
       \<and> (\<exists>cs'. setCachedData sf ''correlation'' p d ttl cs h now
                   = Inr (cs', h(a \<mapsto> StrArray (sort ts))))"
proof -
  have key: "createCacheKey sf ''correlation'' p h
             = Inr (''corr:'' @ join ''_'' (sort ts) @ '':'' @ templateNumber (minutes p),
                    h(a \<mapsto> StrArray (sort ts)))"
    using assms by (rule createCacheKey_correlation)
  show ?thesis
    unfolding getCachedData_def setCachedData_def key
    by (simp add: Let_def split: prod.splits)
qed

lemmas cache_eval = createCacheKey_def getCachedData_def setCachedData_def
  getStockCorrelation_lookup_def arrayAt_def getCacheForType_def lessEq_def cacheGet_def
  cacheSet_def initialCaches_def templateString_def templateNumber_def numberToString_def
  natDigits.simps digitChar_def Let_def

text \<open>
  A request for MSFT and AAPL, in this order: after the key is built the array reads AAPL,
  MSFT; before the lookup \<open>tickers[0]\<close> is MSFT, and after the (missed) lookup the
  controller fetches \<open>tickers[0]\<close> = AAPL first and \<open>tickers[1]\<close> = MSFT second.
\<close>

theorem createCacheKey_sorts_in_place_witness:
  "createCacheKey (\<lambda>p h. []) ''correlation''
       \<lparr>ticker = None, tickers = Some 0, minutes = Some 60, aggregation = None\<rparr>
       [0 \<mapsto> StrArray [''MSFT'', ''AAPL'']]
     = Inr (''corr:AAPL_MSFT:60'', [0 \<mapsto> StrArray [''AAPL'', ''MSFT'']])
   \<and> arrayAt ([0 \<mapsto> StrArray [''MSFT'', ''AAPL'']] :: unit heap) 0 0 = Some ''MSFT''
   \<and> getStockCorrelation_lookup (\<lambda>p h. []) 0 60 initialCaches
       ([0 \<mapsto> StrArray [''MSFT'', ''AAPL'']] :: unit heap) 0
     = Inr (Fetch (Some ''AAPL'') (Some ''MSFT''), initialCaches,
            [0 \<mapsto> StrArray [''AAPL'', ''MSFT'']])"
  using createCacheKey_sorts_in_place [of
      "\<lparr>ticker = None, tickers = Some 0, minutes = Some 60, aggregation = None\<rparr>" 0
      "[0 \<mapsto> StrArray [''MSFT'', ''AAPL'']] :: unit heap" "[''MSFT'', ''AAPL'']"
      "\<lambda>p h. []" initialCaches 0 0 None]
  by (simp add: cache_eval)


text \<open>
  The key of the tickers AAPL and MSFT over 60 minutes, in both orders.
\<close>

theorem createCacheKey_symmetric_witness:
  "createCacheKey (\<lambda>p h. []) ''correlation''
       \<lparr>ticker = None, tickers = Some 0, minutes = Some 60, aggregation = None\<rparr>
       ([0 \<mapsto> StrArray [''AAPL'', ''MSFT'']] :: unit heap)
     = Inr (''corr:AAPL_MSFT:60'', [0 \<mapsto> StrArray [''AAPL'', ''MSFT'']])
   \<and> createCacheKey (\<lambda>p h. []) ''correlation''
       \<lparr>ticker = None, tickers = Some 0, minutes = Some 60, aggregation = None\<rparr>
       ([0 \<mapsto> StrArray [''MSFT'', ''AAPL'']] :: unit heap)
     = Inr (''corr:AAPL_MSFT:60'', [0 \<mapsto> StrArray [''AAPL'', ''MSFT'']])"
  using createCacheKey_symmetric [where sf = "\<lambda>p h. []"
      and p = "\<lparr>ticker = None, tickers = Some 0, minutes = Some 60, aggregation = None\<rparr>"
      and a = 0 and h = "Map.empty :: unit heap" and A = "''AAPL''" and B = "''MSFT''"]
  by (simp add: cache_eval)

lemma cacheGet_cacheSet:
  assumes "now' \<le> now + (case ttl of None \<Rightarrow> stdTTL c | Some t \<Rightarrow> t)"
  shows "cacheGet (cacheSet c now key d ttl) now' key = (Some d, cacheSet c now key d ttl)"
  using assms by (simp add: cacheGet_def cacheSet_def Let_def)

text \<open>
  C3, as amended. The stores keep references (\<open>useClones: false\<close>): after a put of the
  reference \<open>d\<close>, a get for the same key that is not later than the expiry returns the
  reference \<open>d\<close> itself, whatever the store of objects \<open>h2\<close> holds by then. The object
  that the caller of the get sees is therefore the object as it is at the time of the get,
  with every change made to it since the put, through the reference that was put or through
  one that an earlier get returned.
\<close>

theorem getCachedData_returns_stored_reference:
  assumes key_put: "createCacheKey sf ty p h = Inr (key, h1)"
    and put: "setCachedData sf ty p d ttl cs h now = Inr (cs1, h1)"
    and key_get: "createCacheKey sf ty p h2 = Inr (key, h3)"
    and unexpired: "now' \<le> now + (case ttl of None \<Rightarrow> stdTTL (tierCache (getCacheForType ty (minutes p)) cs)
                                    | Some t \<Rightarrow> t)"
  shows "getCachedData sf ty p cs1 h2 now' = Inr (Some d, cs1, h3)"
proof -
  let ?t = "getCacheForType ty (minutes p)"
  let ?c = "cacheSet (tierCache ?t cs) now key d ttl"
  have cs1: "cs1 = tierUpdate ?t ?c cs"
    using put by (simp add: setCachedData_def key_put Let_def)
  have "cacheGet (tierCache ?t cs1) now' key = (Some d, ?c)"
    unfolding cs1 tierCache_tierUpdate using unexpired by (rule cacheGet_cacheSet)
  moreover have "tierUpdate ?t ?c cs1 = cs1"
    unfolding cs1 by (cases ?t) simp_all
  ultimately show ?thesis
    by (simp add: getCachedData_def key_get Let_def)
qed

text \<open>
  A put of the reference 1 at time 0 with a time-to-live of 5 seconds, and a get at time 3,
  after the object at 1 was changed from 42 to 7: the get returns the reference 1, which now
  denotes 7.
\<close>

theorem getCachedData_returns_stored_reference_witness:
  "setCachedData (\<lambda>p h. []) ''stockPrice''
       \<lparr>ticker = Some ''AAPL'', tickers = None, minutes = Some 5, aggregation = Some ''average''\<rparr>
       1 (Some 5) initialCaches [1 \<mapsto> Obj (42 :: int)] 0
     = Inr (initialCaches\<lparr>shortTermCache :=
              \<lparr>stdTTL = 10, entries = [''stock:AAPL:5:average'' \<mapsto> \<lparr>cvalue = 1, expiry = 5\<rparr>]\<rparr>\<rparr>,
            [1 \<mapsto> Obj 42])
   \<and> getCachedData (\<lambda>p h. []) ''stockPrice''
       \<lparr>ticker = Some ''AAPL'', tickers = None, minutes = Some 5, aggregation = Some ''average''\<rparr>
       (initialCaches\<lparr>shortTermCache :=
              \<lparr>stdTTL = 10, entries = [''stock:AAPL:5:average'' \<mapsto> \<lparr>cvalue = 1, expiry = 5\<rparr>]\<rparr>\<rparr>)
       [1 \<mapsto> Obj (7 :: int)] 3
     = Inr (Some 1,
            initialCaches\<lparr>shortTermCache :=
              \<lparr>stdTTL = 10, entries = [''stock:AAPL:5:average'' \<mapsto> \<lparr>cvalue = 1, expiry = 5\<rparr>]\<rparr>\<rparr>,
            [1 \<mapsto> Obj 7])"
  using getCachedData_returns_stored_reference [where sf = "\<lambda>p h. []" and ty = "''stockPrice''"
      and p = "\<lparr>ticker = Some ''AAPL'', tickers = None, minutes = Some 5,
                 aggregation = Some ''average''\<rparr>"
      and h = "[1 \<mapsto> Obj (42 :: int)]" and key = "''stock:AAPL:5:average''"
      and ?h1.0 = "[1 \<mapsto> Obj (42 :: int)]" and d = 1 and ttl = "Some 5" and cs = initialCaches
      and ?cs1.0 = "initialCaches\<lparr>shortTermCache :=
              \<lparr>stdTTL = 10,
                 entries = [''stock:AAPL:5:average'' \<mapsto> \<lparr>cvalue = 1, expiry = 5\<rparr>]\<rparr>\<rparr>"
      and now = 0 and ?h2.0 = "[1 \<mapsto> Obj (7 :: int)]" and ?h3.0 = "[1 \<mapsto> Obj (7 :: int)]"
      and now' = 3]
  by (simp add: cache_eval)

text \<open>
  C3, as stated, says that a change made to an object after it was passed to
  \<open>setCachedData\<close> never changes what a later \<open>getCachedData\<close> returns. An object with
  contents 42 is put; the caller then changes it to 7; the later get yields the object with
  contents 7, where the same get without the change yields contents 42.
\<close>

theorem cache_aliasing_counterexample:
  "(case setCachedData (\<lambda>p h. []) ''stockPrice''
           \<lparr>ticker = Some ''AAPL'', tickers = None, minutes = Some 5,
              aggregation = Some ''average''\<rparr>
           1 (Some 5) initialCaches [1 \<mapsto> Obj (42 :: int)] 0 of
      Inl e \<Rightarrow> None
    | Inr (cs1, h1) \<Rightarrow>
        (case getCachedData (\<lambda>p h. []) ''stockPrice''
                \<lparr>ticker = Some ''AAPL'', tickers = None, minutes = Some 5,
                   aggregation = Some ''average''\<rparr>
                cs1 (h1(1 \<mapsto> Obj 7)) 3 of
           Inl e \<Rightarrow> None
         | Inr (r, cs2, h2) \<Rightarrow> deref h2 r))
   = Some (Obj 7)
   \<and> (case setCachedData (\<lambda>p h. []) ''stockPrice''
           \<lparr>ticker = Some ''AAPL'', tickers = None, minutes = Some 5,
              aggregation = Some ''average''\<rparr>
           1 (Some 5) initialCaches [1 \<mapsto> Obj (42 :: int)] 0 of
      Inl e \<Rightarrow> None
    | Inr (cs1, h1) \<Rightarrow>
        (case getCachedData (\<lambda>p h. []) ''stockPrice''
                \<lparr>ticker = Some ''AAPL'', tickers = None, minutes = Some 5,
                   aggregation = Some ''average''\<rparr>
                cs1 h1 3 of
           Inl e \<Rightarrow> None
         | Inr (r, cs2, h2) \<Rightarrow> deref h2 r))
   = Some (Obj 42)"
  by (simp add: cache_eval deref_def)

end
